theory Spec2Isabelle
  imports Main "HOL-Library.Sublist"
begin

section \<open>grobi: the xrandr report parser and the command synthesizer (randr.go)\<close>

text \<open>
  A shallow embedding of \<^verbatim>\<open>src/cmd/grobi/randr.go\<close>. Go strings are byte sequences, so a
  string is a \<^typ>\<open>string\<close> (a list of 8-bit characters) and \<^verbatim>\<open>s[i]\<close> is a byte access.
  A Go function returning \<^verbatim>\<open>(T, error)\<close> becomes a function into \<open>error + T\<close>; where the Go
  code can also stop with a run-time panic (an index out of range), the result type is
  \<open>T outcome\<close>, which keeps the panic apart from the error values.
\<close>

subsection \<open>Data model\<close>

text \<open>\<^verbatim>\<open>type Mode struct { Name string; Default bool; Active bool }\<close>\<close>

record Mode =
  Mode_Name :: string
  Mode_Default :: bool
  Mode_Active :: bool

text \<open>\<^verbatim>\<open>type Output struct { Name string; Modes Modes; Connected bool }\<close>; \<^verbatim>\<open>Modes\<close> is
  \<^verbatim>\<open>[]Mode\<close> and \<^verbatim>\<open>Outputs\<close> is \<^verbatim>\<open>[]Output\<close>.\<close>

record Output =
  Output_Name :: string
  Output_Modes :: "Mode list"
  Output_Connected :: bool

type_synonym Modes = "Mode list"
type_synonym Outputs = "Output list"

text \<open>The zero values \<^verbatim>\<open>Mode{}\<close> and \<^verbatim>\<open>Output{}\<close>.\<close>

definition Mode_zero :: Mode where
  "Mode_zero = \<lparr>Mode_Name = [], Mode_Default = False, Mode_Active = False\<rparr>"

definition Output_zero :: Output where
  "Output_zero = \<lparr>Output_Name = [], Output_Modes = [], Output_Connected = False\<rparr>"

text \<open>
  The error values of the file, one constructor for each place that builds one. The
  \<^verbatim>\<open>fmt.Errorf\<close> messages are kept as their arguments (the offending line or token).
\<close>

datatype error =
    errNotModeLine                   \<comment> \<open>\<^verbatim>\<open>errors.New("not a mode line")\<close>\<close>
  | NameNotFound string              \<comment> \<open>"line too short, name not found: %s"\<close>
  | StateNotFound string             \<comment> \<open>"line too short, state not found: %s"\<close>
  | UnknownState string              \<comment> \<open>"unknown state %q"\<close>
  | ModeNameNotFound string          \<comment> \<open>"line too short, mode name not found: %s"\<close>
  | RefreshRateNotFound string       \<comment> \<open>"line too short, no refresh rate found: %s"\<close>
  | FirstLineNotScreen string        \<comment> \<open>"first line should start with "Screen", found: %v"\<close>
  | EmptyRowConfiguration            \<comment> \<open>\<^verbatim>\<open>errors.New("empty monitor row configuration")\<close>\<close>
  | ErrBadPattern                    \<comment> \<open>\<^verbatim>\<open>path.ErrBadPattern\<close>\<close>

text \<open>
  What a call of a Go function ends with: it returns a value, it returns an error value,
  or the run-time system stops the process with a panic.
\<close>

datatype 'a outcome = Returns 'a | Fails error | Panics

subsection \<open>The Go library functions the parser calls\<close>

text \<open>
  \<^verbatim>\<open>utf8.DecodeRune\<close>: the first rune of a byte string and its width in bytes. An empty
  string gives \<open>(RuneError, 0)\<close>, an invalid or incomplete encoding \<open>(RuneError, 1)\<close>.
  The accepted range of the second byte depends on the first (\<^verbatim>\<open>acceptRanges\<close>):
  \<open>0xE0\<close> needs \<open>0xA0..0xBF\<close>, \<open>0xED\<close> needs \<open>0x80..0x9F\<close>, \<open>0xF0\<close> needs
  \<open>0x90..0xBF\<close>, \<open>0xF4\<close> needs \<open>0x80..0x8F\<close>, any other lead byte \<open>0x80..0xBF\<close>.
\<close>

definition RuneError :: nat where
  "RuneError = 0xFFFD"

definition byte :: "string \<Rightarrow> nat \<Rightarrow> nat" where
  "byte s i = of_char (s ! i)"

definition DecodeRune :: "string \<Rightarrow> nat \<times> nat" where
  "DecodeRune p =
     (if p = [] then (RuneError, 0)
      else if byte p 0 < 0x80 then (byte p 0, 1)
      else if byte p 0 < 0xC2 \<or> 0xF5 \<le> byte p 0 then (RuneError, 1)
      else if length p < (if byte p 0 < 0xE0 then 2 else if byte p 0 < 0xF0 then 3 else 4)
        then (RuneError, 1)
      else if byte p 1 < (if byte p 0 = 0xE0 then 0xA0 else if byte p 0 = 0xF0 then 0x90 else 0x80)
           \<or> (if byte p 0 = 0xED then 0x9F else if byte p 0 = 0xF4 then 0x8F else 0xBF) < byte p 1
        then (RuneError, 1)
      else if byte p 0 < 0xE0 then ((byte p 0 mod 32) * 64 + byte p 1 mod 64, 2)
      else if byte p 2 < 0x80 \<or> 0xBF < byte p 2 then (RuneError, 1)
      else if byte p 0 < 0xF0
        then ((byte p 0 mod 16) * 4096 + (byte p 1 mod 64) * 64 + byte p 2 mod 64, 3)
      else if byte p 3 < 0x80 \<or> 0xBF < byte p 3 then (RuneError, 1)
      else ((byte p 0 mod 8) * 262144 + (byte p 1 mod 64) * 4096
              + (byte p 2 mod 64) * 64 + byte p 3 mod 64, 4))"

text \<open>\<^verbatim>\<open>isSpace\<close> of package bufio: the Unicode white space runes.\<close>

definition isSpace :: "nat \<Rightarrow> bool" where
  "isSpace r \<longleftrightarrow>
     r = 0x20 \<or> (0x09 \<le> r \<and> r \<le> 0x0D) \<or> r = 0x85 \<or> r = 0xA0
     \<or> (0x2000 \<le> r \<and> r \<le> 0x200A)
     \<or> r = 0x1680 \<or> r = 0x2028 \<or> r = 0x2029 \<or> r = 0x202F \<or> r = 0x205F \<or> r = 0x3000"

text \<open>Whether a byte string starts with a white space rune, and the bytes of its first rune.\<close>

definition spaceAhead :: "string \<Rightarrow> bool" where
  "spaceAhead data \<longleftrightarrow> isSpace (fst (DecodeRune data))"

definition runeWidth :: "string \<Rightarrow> nat" where
  "runeWidth data = snd (DecodeRune data)"

lemma runeWidth_pos: "data \<noteq> [] \<Longrightarrow> 0 < runeWidth data"
  by (simp add: runeWidth_def DecodeRune_def)

text \<open>
  A \<^verbatim>\<open>bufio.Scanner\<close> holds at most \<^verbatim>\<open>MaxScanTokenSize\<close> bytes of input that it has not
  delivered: when its buffer is full and holds no token, \<^verbatim>\<open>Scan\<close> returns false
  (\<^verbatim>\<open>ErrTooLong\<close>).
\<close>

definition MaxScanTokenSize :: nat where
  "MaxScanTokenSize = 64 * 1024"

text \<open>
  \<^verbatim>\<open>bufio.ScanWords\<close>, run by a \<^verbatim>\<open>bufio.Scanner\<close> over a whole line: the first loop of the
  split function skips leading white space, the second reads up to the next white space
  rune (or to the end of the data). \<open>ScanWords data\<close> is the list of the tokens that the
  successive calls of \<^verbatim>\<open>ws.Scan()\<close> deliver until a call returns false: after the last
  token, or at a word that does not fit into the buffer of the scanner (a word of
  \<^verbatim>\<open>MaxScanTokenSize\<close> bytes or more, or a word whose closing white space rune ends after
  that many bytes). \<^verbatim>\<open>parseOutputLine\<close> and \<^verbatim>\<open>parseModeLine\<close> call \<^verbatim>\<open>ws.Scan()\<close> no more
  once it has returned false.
\<close>

function skipSpaces :: "string \<Rightarrow> string" where
  "skipSpaces data =
     (if data \<noteq> [] \<and> spaceAhead data then skipSpaces (drop (runeWidth data) data) else data)"
  by pat_completeness auto
termination
  by (relation "measure length") (auto simp: runeWidth_pos)

declare skipSpaces.simps [simp del]

function scanWord :: "string \<Rightarrow> string \<Rightarrow> string \<times> string" where
  "scanWord token data =
     (if data = [] then (token, [])
      else if spaceAhead data then (token, drop (runeWidth data) data)
      else scanWord (token @ take (runeWidth data) data) (drop (runeWidth data) data))"
  by pat_completeness auto
termination
  by (relation "measure (\<lambda>(token, data). length data)") (auto simp: runeWidth_pos)

declare scanWord.simps [simp del]

lemma skipSpaces_length: "length (skipSpaces data) \<le> length data"
proof (induction data rule: skipSpaces.induct)
  case (1 data)
  show ?case
  proof (cases "data \<noteq> [] \<and> spaceAhead data")
    case True
    with "1.IH" have "length (skipSpaces (drop (runeWidth data) data)) \<le> length data"
      by simp
    with True show ?thesis by (subst skipSpaces.simps) simp
  next
    case False
    then show ?thesis by (subst skipSpaces.simps) auto
  qed
qed

lemma scanWord_length:
  "data \<noteq> [] \<Longrightarrow> length (snd (scanWord token data)) < length data"
proof (induction token data rule: scanWord.induct)
  case (1 token data)
  note nonempty = \<open>data \<noteq> []\<close>
  show ?case
  proof (cases "spaceAhead data")
    case True
    with nonempty show ?thesis
      by (subst scanWord.simps) (simp add: runeWidth_pos)
  next
    case False
    show ?thesis
    proof (cases "drop (runeWidth data) data = []")
      case True
      with nonempty False show ?thesis
        by (subst scanWord.simps, simp, subst scanWord.simps, simp)
    next
      case rest: False
      with "1.IH" nonempty False
      have "length (snd (scanWord (token @ take (runeWidth data) data) (drop (runeWidth data) data)))
              < length (drop (runeWidth data) data)"
        by simp
      with nonempty False show ?thesis
        by (subst scanWord.simps) simp
    qed
  qed
qed

definition tokenTooLong :: "string \<Rightarrow> bool" where
  "tokenTooLong data \<longleftrightarrow>
     MaxScanTokenSize \<le> length (fst (scanWord [] data))
     \<or> MaxScanTokenSize < length data - length (snd (scanWord [] data))"

function ScanWords :: "string \<Rightarrow> string list" where
  "ScanWords data =
     (if skipSpaces data = [] then []
      else if tokenTooLong (skipSpaces data) then []
      else fst (scanWord [] (skipSpaces data)) # ScanWords (snd (scanWord [] (skipSpaces data))))"
  by pat_completeness auto
termination
proof (relation "measure length")
  show "wf (measure length)" by simp
next
  fix data :: string
  assume "skipSpaces data \<noteq> []"
  then have "length (snd (scanWord [] (skipSpaces data))) < length (skipSpaces data)"
    by (rule scanWord_length)
  also have "\<dots> \<le> length data" by (rule skipSpaces_length)
  finally show "(snd (scanWord [] (skipSpaces data)), data) \<in> measure length" by simp
qed

declare ScanWords.simps [simp del]

text \<open>
  \<^verbatim>\<open>bufio.ScanLines\<close>, run by the \<^verbatim>\<open>bufio.Scanner\<close> of \<^verbatim>\<open>RandrParse\<close> over the whole
  input, which a reader such as the \<^verbatim>\<open>bytes.Reader\<close> of \<^verbatim>\<open>GetOutputs\<close> delivers completely
  before it reports the end of the file. A line ends at a newline, or at the end of the
  input when the last line has none; one trailing carriage return is dropped. The scanner
  holds at most \<^verbatim>\<open>MaxScanTokenSize\<close> bytes: when that many bytes hold no newline,
  \<^verbatim>\<open>Scan\<close> returns false (\<^verbatim>\<open>ErrTooLong\<close>, which \<^verbatim>\<open>RandrParse\<close> never reads) and the loop
  over the lines ends there.
\<close>

definition dropCR :: "string \<Rightarrow> string" where
  "dropCR data = (if data \<noteq> [] \<and> last data = CHR 0x0D then butlast data else data)"

definition firstLine :: "string \<Rightarrow> string" where
  "firstLine data = takeWhile (\<lambda>c. c \<noteq> CHR 0x0A) data"

function ScanLines :: "string \<Rightarrow> string list" where
  "ScanLines data =
     (if data = [] then []
      else if MaxScanTokenSize \<le> length (firstLine data) then []
      else dropCR (firstLine data) # ScanLines (drop (Suc (length (firstLine data))) data))"
  by pat_completeness auto
termination
  by (relation "measure length") auto

declare ScanLines.simps [simp del]

text \<open>\<^verbatim>\<open>strings.Split(s, "+")\<close>, written for a separator of one byte: the pieces between
  the separators, one more than there are separators.\<close>

fun Split :: "char \<Rightarrow> string \<Rightarrow> string list" where
  "Split sep [] = [[]]"
| "Split sep (c # s) =
     (if c = sep then [] # Split sep s
      else (c # hd (Split sep s)) # tl (Split sep s))"

subsection \<open>The parser\<close>

text \<open>
  \<^verbatim>\<open>parseOutputLine\<close> (lines 145 to 183). The three calls of \<^verbatim>\<open>ws.Scan()\<close> read the
  first three words of the line. A connected output returns before the third word is
  read; a disconnected one keeps the mode of a third word made of three parts joined
  by \<open>+\<close>.
\<close>

definition parseOutputLine :: "string \<Rightarrow> error + Output" where
  "parseOutputLine line =
     (case ScanWords line of
        [] \<Rightarrow> Inl (NameNotFound line)
      | [name] \<Rightarrow> Inl (StateNotFound line)
      | name # state # rest \<Rightarrow>
          if state = ''connected''
            then Inr (Output_zero\<lparr>Output_Name := name, Output_Connected := True\<rparr>)
          else if state = ''disconnected''
            then (case rest of
                    [] \<Rightarrow> Inr (Output_zero\<lparr>Output_Name := name, Output_Connected := False\<rparr>)
                  | third # _ \<Rightarrow>
                      if length (Split (CHR ''+'') third) \<noteq> 3
                        then Inr (Output_zero\<lparr>Output_Name := name, Output_Connected := False\<rparr>)
                      else Inr (Output_zero\<lparr>Output_Name := name, Output_Connected := False,
                             Output_Modes := [Mode_zero\<lparr>Mode_Name := Split (CHR ''+'') third ! 0,
                                                         Mode_Active := True\<rparr>]\<rparr>))
          else Inl (UnknownState state))"

text \<open>
  \<^verbatim>\<open>parseModeLine\<close> (lines 186 to 218). \<^verbatim>\<open>rate\<close> is a word, so it has at least one byte
  and \<^verbatim>\<open>rate[len(rate)-1]\<close> is its last byte. \<^verbatim>\<open>rate[len(rate)-2]\<close> is an index of \<open>-1\<close>
  when \<^verbatim>\<open>rate\<close> has one byte only: Go checks every index, and the access panics.
\<close>

definition parseModeLine :: "string \<Rightarrow> Mode outcome" where
  "parseModeLine line =
     (if \<not> prefix ''  '' line then Fails errNotModeLine
      else case ScanWords line of
        [] \<Rightarrow> Fails (ModeNameNotFound line)
      | [name] \<Rightarrow> Fails (RefreshRateNotFound line)
      | name # rate # rest \<Rightarrow>
          if length rate < 2 then Panics
          else Returns
            \<lparr>Mode_Name = name,
             Mode_Default = (rate ! (length rate - 1) = CHR ''+'' \<or> (rest \<noteq> [] \<and> hd rest = ''+'')),
             Mode_Active = (rate ! (length rate - 2) = CHR ''*'')\<rparr>)"

text \<open>
  \<^verbatim>\<open>RandrParse\<close> (lines 221 to 280): the state machine over the lines. The variables of
  the function are the state, the output being read and the outputs read so far. In
  \<^verbatim>\<open>StateMode\<close> a line that is no mode line closes the output and is read again in
  \<^verbatim>\<open>StateOutput\<close> (the \<^verbatim>\<open>continue\<close> of the inner loop).
\<close>

datatype state = StateStart | StateOutput | StateMode

function RandrParse_lines :: "state \<Rightarrow> Output \<Rightarrow> Outputs \<Rightarrow> string list \<Rightarrow> Outputs outcome" where
  "RandrParse_lines st output outputs [] =
     Returns (if Output_Name output \<noteq> [] then outputs @ [output] else outputs)"
| "RandrParse_lines StateStart output outputs (line # ls) =
     (if prefix ''Screen '' line then RandrParse_lines StateOutput output outputs ls
      else Fails (FirstLineNotScreen line))"
| "RandrParse_lines StateOutput output outputs (line # ls) =
     (case parseOutputLine line of
        Inl err \<Rightarrow> Fails err
      | Inr out \<Rightarrow> RandrParse_lines StateMode out outputs ls)"
| "RandrParse_lines StateMode output outputs (line # ls) =
     (case parseModeLine line of
        Panics \<Rightarrow> Panics
      | Fails err \<Rightarrow>
          if err = errNotModeLine
            then RandrParse_lines StateOutput Output_zero (outputs @ [output]) (line # ls)
          else Fails err
      | Returns mode \<Rightarrow>
          RandrParse_lines StateMode
            (output\<lparr>Output_Modes := Output_Modes output @ [mode]\<rparr>) outputs ls)"
  by pat_completeness auto
termination
  by (relation "measures [\<lambda>(st, output, outputs, ls). length ls,
                          \<lambda>(st, output, outputs, ls). if st = StateMode then 1 else 0]") auto

definition RandrParse :: "string \<Rightarrow> Outputs outcome" where
  "RandrParse rd = RandrParse_lines StateStart Output_zero [] (ScanLines rd)"

subsection \<open>The command synthesizer\<close>

text \<open>
  Modelled from the spec: the declaration of \<^verbatim>\<open>type Rule struct\<close> is in a file of the
  repository that is not among the sources; the fields are those of section 3 of the
  specification. \<^verbatim>\<open>BuildCommandOutputRow\<close> reads \<^verbatim>\<open>ConfigureSingle\<close>, \<^verbatim>\<open>ConfigureRow\<close>,
  \<^verbatim>\<open>DisableOrder\<close> and \<^verbatim>\<open>Atomic\<close> only.
\<close>

record Rule =
  Rule_Name :: string
  Rule_OutputsConnected :: "string list"
  Rule_OutputsDisconnected :: "string list"
  Rule_OutputsPresent :: "string list"
  Rule_OutputsAbsent :: "string list"
  Rule_ConfigureRow :: "string list"
  Rule_ConfigureSingle :: string
  Rule_Atomic :: bool
  Rule_DisableOrder :: "string list"
  Rule_ExecuteBefore :: "string list"
  Rule_ExecuteAfter :: "string list"

text \<open>The zero value \<^verbatim>\<open>Rule{}\<close>.\<close>

definition Rule_zero :: Rule where
  "Rule_zero =
     \<lparr>Rule_Name = [], Rule_OutputsConnected = [], Rule_OutputsDisconnected = [],
      Rule_OutputsPresent = [], Rule_OutputsAbsent = [], Rule_ConfigureRow = [],
      Rule_ConfigureSingle = [], Rule_Atomic = False, Rule_DisableOrder = [],
      Rule_ExecuteBefore = [], Rule_ExecuteAfter = []\<rparr>"

text \<open>A command descriptor: \<^verbatim>\<open>exec.Command(name, args...)\<close>, which is built and not run.\<close>

datatype Cmd = Command string "string list"

text \<open>\<^verbatim>\<open>strings.SplitN(s, sep, 2)\<close>, written for a separator of one byte: the string
  itself when it holds no separator, else the parts before and after the first one.\<close>

definition SplitN2 :: "char \<Rightarrow> string \<Rightarrow> string list" where
  "SplitN2 sep s =
     (if sep \<in> set s
        then [takeWhile (\<lambda>c. c \<noteq> sep) s, tl (dropWhile (\<lambda>c. c \<noteq> sep) s)]
      else [s])"

text \<open>The \<^verbatim>\<open>switch\<close> of lines 319 to 326: the outputs to enable.\<close>

definition resolveOutputs :: "Rule \<Rightarrow> error + string list" where
  "resolveOutputs rule =
     (if Rule_ConfigureSingle rule \<noteq> [] then Inr [Rule_ConfigureSingle rule]
      else if length (Rule_ConfigureRow rule) > 0 then Inr (Rule_ConfigureRow rule)
      else Inl EmptyRowConfiguration)"

text \<open>
  The loop of lines 335 to 359 over \<^verbatim>\<open>outputs\<close>, from index \<open>i\<close> on. Its variables are
  the set \<^verbatim>\<open>active\<close> (a \<^verbatim>\<open>map[string]struct{}\<close>), \<^verbatim>\<open>lastOutput\<close> and \<^verbatim>\<open>enableOutputArgs\<close>.
\<close>

fun enableOutputs ::
  "nat \<Rightarrow> string list \<Rightarrow> string set \<times> string \<times> string list list
     \<Rightarrow> string set \<times> string \<times> string list list" where
  "enableOutputs i [] vars = vars"
| "enableOutputs i (output # outputs) (active, lastOutput, enableOutputArgs) =
     (let data = SplitN2 (CHR ''@'') output;
          name = data ! 0;
          mode = (if length data > 1 then data ! 1 else []);
          args = [''--output'', name]
                 @ (if mode = [] then [''--auto''] else [''--mode'', mode])
                 @ (if i > 0 then [''--right-of'', lastOutput] else [])
      in enableOutputs (Suc i) outputs (insert name active, name, enableOutputArgs @ [args]))"

text \<open>The loop of lines 362 to 371 over \<^verbatim>\<open>current\<close>, which fills the set
  \<^verbatim>\<open>disableOutputs\<close> (a \<^verbatim>\<open>map[string]struct{}\<close>).\<close>

fun collectDisable :: "string set \<Rightarrow> Outputs \<Rightarrow> string set \<Rightarrow> string set" where
  "collectDisable active [] disableOutputs = disableOutputs"
| "collectDisable active (output # current) disableOutputs =
     (if \<not> Output_Connected output \<and> length (Output_Modes output) = 0
        then collectDisable active current disableOutputs
      else if Output_Name output \<notin> active
        then collectDisable active current (insert (Output_Name output) disableOutputs)
      else collectDisable active current disableOutputs)"

text \<open>The argument group that switches an output off (lines 378 and 387).\<close>

definition offArgs :: "string \<Rightarrow> string list" where
  "offArgs name = [''--output'', name, ''--off'']"

text \<open>The loop of lines 376 to 383 over \<^verbatim>\<open>rule.DisableOrder\<close>; its variables are
  \<^verbatim>\<open>disableOutputs\<close> and \<^verbatim>\<open>disableOutputArgs\<close>.\<close>

fun honourDisableOrder ::
  "string list \<Rightarrow> string set \<times> string list list \<Rightarrow> string set \<times> string list list" where
  "honourDisableOrder [] vars = vars"
| "honourDisableOrder (name # names) (disableOutputs, disableOutputArgs) =
     (if name \<in> disableOutputs
        then honourDisableOrder names
               (disableOutputs - {name}, disableOutputArgs @ [offArgs name])
      else honourDisableOrder names (disableOutputs, disableOutputArgs))"

text \<open>
  The loop of lines 386 to 389 ranges over the map \<^verbatim>\<open>disableOutputs\<close>. Go leaves the
  order of a map iteration open: it visits every key once, in an order that can differ
  from run to run. The order the run takes is the list \<open>ks\<close>, an argument of the model;
  \<open>rangeOrder m ks\<close> says that \<open>ks\<close> is an order in which the keys of \<open>m\<close> can be
  visited.
\<close>

definition rangeOrder :: "string set \<Rightarrow> string list \<Rightarrow> bool" where
  "rangeOrder m ks \<longleftrightarrow> distinct ks \<and> set ks = m"

fun collectRemaining :: "string list \<Rightarrow> string list list \<Rightarrow> string list list" where
  "collectRemaining [] disableOutputArgs = disableOutputArgs"
| "collectRemaining (name # ks) disableOutputArgs =
     collectRemaining ks (disableOutputArgs @ [offArgs name])"

text \<open>
  The variables of \<^verbatim>\<open>BuildCommandOutputRow\<close> as functions of its inputs and of the
  resolved list \<^verbatim>\<open>outputs\<close>: \<^verbatim>\<open>active\<close> and \<^verbatim>\<open>enableOutputArgs\<close> after the loop of line
  335, \<^verbatim>\<open>disableOutputs\<close> after the loop of line 362 and (\<open>remainingDisable\<close>) when the
  loop of line 386 starts, \<^verbatim>\<open>disableOutputArgs\<close> when that loop has ended.
\<close>

definition active :: "string list \<Rightarrow> string set" where
  "active outputs = fst (enableOutputs 0 outputs ({}, [], []))"

definition enableOutputArgs :: "string list \<Rightarrow> string list list" where
  "enableOutputArgs outputs = snd (snd (enableOutputs 0 outputs ({}, [], [])))"

definition disableOutputs :: "string list \<Rightarrow> Outputs \<Rightarrow> string set" where
  "disableOutputs outputs current = collectDisable (active outputs) current {}"


definition remainingDisable :: "Rule \<Rightarrow> string list \<Rightarrow> Outputs \<Rightarrow> string set" where
  "remainingDisable rule outputs current =
     fst (honourDisableOrder (Rule_DisableOrder rule) (disableOutputs outputs current, []))"

definition disableOutputArgs :: "string list \<Rightarrow> Rule \<Rightarrow> string list \<Rightarrow> Outputs \<Rightarrow> string list list" where
  "disableOutputArgs ks rule outputs current =
     collectRemaining ks
       (snd (honourDisableOrder (Rule_DisableOrder rule) (disableOutputs outputs current, [])))"

text \<open>
  The loop of lines 417 to 429: while a queue is not empty, one command takes the head
  of each queue that has one.
\<close>

fun splitCalls :: "string list list \<Rightarrow> string list list \<Rightarrow> Cmd list \<Rightarrow> Cmd list" where
  "splitCalls [] [] cmds = cmds"
| "splitCalls (disableArgs # ds) [] cmds =
     splitCalls ds [] (cmds @ [Command ''xrandr'' ([] @ disableArgs)])"
| "splitCalls [] (enableArgs # es) cmds =
     splitCalls [] es (cmds @ [Command ''xrandr'' ([] @ enableArgs)])"
| "splitCalls (disableArgs # ds) (enableArgs # es) cmds =
     splitCalls ds es (cmds @ [Command ''xrandr'' ([] @ disableArgs @ enableArgs)])"

text \<open>Lines 408 to 431: the first disable alone (lines 411 to 414), then the loop.\<close>

definition severalCalls :: "string list list \<Rightarrow> string list list \<Rightarrow> Cmd list" where
  "severalCalls dis en =
     (if length dis > 0 then splitCalls (tl dis) en ([] @ [Command ''xrandr'' (dis ! 0)])
      else splitCalls dis en [])"

text \<open>
  \<^verbatim>\<open>BuildCommandOutputRow\<close> (lines 316 to 432). \<open>ks\<close> is the order in which the run
  visits the keys of the map at line 386. The calls of \<^verbatim>\<open>verbosePrintf\<close> only print.
\<close>

definition BuildCommandOutputRow :: "string list \<Rightarrow> Rule \<Rightarrow> Outputs \<Rightarrow> error + Cmd list" where
  "BuildCommandOutputRow ks rule current =
     (case resolveOutputs rule of
        Inl err \<Rightarrow> Inl err
      | Inr outputs \<Rightarrow>
          if Rule_Atomic rule
            then Inr [Command ''xrandr''
                        (concat (disableOutputArgs ks rule outputs current)
                         @ concat (enableOutputArgs outputs))]
          else Inr (severalCalls (disableOutputArgs ks rule outputs current)
                      (enableOutputArgs outputs)))"

text \<open>
  The two kinds of argument group, told apart by their third argument: a disable group is
  \<open>--output name --off\<close>, an enable group starts with \<open>--output name --auto\<close> or
  \<open>--output name --mode\<close>.
\<close>

definition disableGroup :: "string list \<Rightarrow> bool" where
  "disableGroup g \<longleftrightarrow> length g = 3 \<and> g ! 0 = ''--output'' \<and> g ! 2 = ''--off''"

definition enableGroup :: "string list \<Rightarrow> bool" where
  "enableGroup g \<longleftrightarrow>
     3 \<le> length g \<and> g ! 0 = ''--output'' \<and> (g ! 2 = ''--auto'' \<or> g ! 2 = ''--mode'')"

text \<open>
  What a list of commands carries. \<open>argsOf\<close> is the argument list of a command
  (\<^verbatim>\<open>cmd.Args[1:]\<close>). \<open>offGroups\<close> reads the disable groups with which an argument list
  starts, and \<open>disableGroupsOf\<close> collects them over the commands, in the order of the
  commands; \<open>enableArgsOf\<close> is what the argument lists hold after these groups.
\<close>

definition argsOf :: "Cmd \<Rightarrow> string list" where
  "argsOf cmd = (case cmd of Command name args \<Rightarrow> args)"

fun offGroups :: "string list \<Rightarrow> string list list" where
  "offGroups (a # name # b # args) =
     (if a = ''--output'' \<and> b = ''--off'' then [a, name, b] # offGroups args else [])"
| "offGroups args = []"

definition disableGroupsOf :: "Cmd list \<Rightarrow> string list list" where
  "disableGroupsOf cmds = concat (map (\<lambda>cmd. offGroups (argsOf cmd)) cmds)"

definition enableArgsOf :: "Cmd list \<Rightarrow> string list" where
  "enableArgsOf cmds =
     concat (map (\<lambda>cmd. drop (3 * length (offGroups (argsOf cmd))) (argsOf cmd)) cmds)"

subsection \<open>The queries on the outputs\<close>

text \<open>
  \<^verbatim>\<open>path.Match\<close> of the Go library, as it is since Go 1.16, where a pattern with a syntax
  error gives \<^verbatim>\<open>ErrBadPattern\<close> also when the match has already failed. The functions are
  those of \<^verbatim>\<open>path/match.go\<close>.

  \<^verbatim>\<open>getEsc\<close> reads one rune of a character class, which a backslash may escape; the
  class may not end there.
\<close>

definition getEsc :: "string \<Rightarrow> error + nat \<times> string" where
  "getEsc chunk =
     (if chunk = [] \<or> hd chunk = CHR ''-'' \<or> hd chunk = CHR '']'' then Inl ErrBadPattern
      else if hd chunk = CHR 0x5C \<and> tl chunk = [] then Inl ErrBadPattern
      else let chunk1 = (if hd chunk = CHR 0x5C then tl chunk else chunk);
               r = fst (DecodeRune chunk1);
               n = snd (DecodeRune chunk1)
           in if (r = RuneError \<and> n = 1) \<or> drop n chunk1 = [] then Inl ErrBadPattern
              else Inr (r, drop n chunk1))"

lemma getEsc_shorter: "getEsc chunk = Inr (r, nchunk) \<Longrightarrow> length nchunk < length chunk"
  by (auto simp: getEsc_def Let_def runeWidth_def [symmetric] dest: runeWidth_pos
      split: if_splits)

text \<open>
  The loop that parses the ranges of a character class (\<open>parse all ranges\<close>), for the
  rune \<open>r\<close> of the name: it returns whether a range held \<open>r\<close>, and the chunk after the
  closing bracket.
\<close>

function parseRanges :: "nat \<Rightarrow> bool \<Rightarrow> nat \<Rightarrow> string \<Rightarrow> error + bool \<times> string" where
  "parseRanges r match nrange chunk =
     (if chunk \<noteq> [] \<and> hd chunk = CHR '']'' \<and> nrange > 0 then Inr (match, tl chunk)
      else case getEsc chunk of
        Inl err \<Rightarrow> Inl err
      | Inr (lo, chunk1) \<Rightarrow>
          if hd chunk1 = CHR ''-''
            then (case getEsc (tl chunk1) of
                    Inl err \<Rightarrow> Inl err
                  | Inr (hi, chunk2) \<Rightarrow>
                      parseRanges r (match \<or> (lo \<le> r \<and> r \<le> hi)) (Suc nrange) chunk2)
          else parseRanges r (match \<or> (lo \<le> r \<and> r \<le> lo)) (Suc nrange) chunk1)"
  by pat_completeness auto
termination
proof (relation "measure (\<lambda>(r, match, nrange, chunk). length chunk)")
  show "wf (measure (\<lambda>(r, match, nrange, chunk). length chunk))" by simp
next
  fix r :: nat and match :: bool and nrange :: nat and chunk :: string
    and x :: "nat \<times> string" and lo chunk1 and y :: "nat \<times> string" and hi chunk2
  assume "getEsc chunk = Inr x" "(lo, chunk1) = x" "hd chunk1 = CHR ''-''"
    "getEsc (tl chunk1) = Inr y" "(hi, chunk2) = y"
  then have "length chunk1 < length chunk" "length chunk2 < length (tl chunk1)"
    by (auto dest: getEsc_shorter)
  then show "((r, match \<or> lo \<le> r \<and> r \<le> hi, Suc nrange, chunk2), r, match, nrange, chunk)
      \<in> measure (\<lambda>(r, match, nrange, chunk). length chunk)"
    by simp
next
  fix r :: nat and match :: bool and nrange :: nat and chunk :: string
    and x :: "nat \<times> string" and lo chunk1
  assume "getEsc chunk = Inr x" "(lo, chunk1) = x"
  then have "length chunk1 < length chunk"
    by (auto dest: getEsc_shorter)
  then show "((r, match \<or> lo \<le> r \<and> r \<le> lo, Suc nrange, chunk1), r, match, nrange, chunk)
      \<in> measure (\<lambda>(r, match, nrange, chunk). length chunk)"
    by simp
qed

declare parseRanges.simps [simp del]

lemma parseRanges_shorter:
  "parseRanges r match nrange chunk = Inr (found, rest) \<Longrightarrow> length rest < length chunk"
proof (induction r match nrange chunk rule: parseRanges.induct)
  case (1 r match nrange chunk)
  show ?case
  proof (cases "chunk \<noteq> [] \<and> hd chunk = CHR '']'' \<and> nrange > 0")
    case True
    with "1.prems" show ?thesis
      by (subst (asm) parseRanges.simps) auto
  next
    case False
    from "1.prems" False obtain lo chunk1 where esc: "getEsc chunk = Inr (lo, chunk1)"
      by (subst (asm) parseRanges.simps) (auto split: sum.splits)
    then have less1: "length chunk1 < length chunk" by (rule getEsc_shorter)
    show ?thesis
    proof (cases "hd chunk1 = CHR ''-''")
      case True
      from "1.prems" False esc True obtain hi chunk2
        where esc2: "getEsc (tl chunk1) = Inr (hi, chunk2)"
          and rec: "parseRanges r (match \<or> (lo \<le> r \<and> r \<le> hi)) (Suc nrange) chunk2
                      = Inr (found, rest)"
        by (subst (asm) parseRanges.simps) (auto split: sum.splits)
      from esc2 have "length chunk2 < length (tl chunk1)" by (rule getEsc_shorter)
      moreover from "1.IH"(1) [OF False esc refl True esc2 refl rec]
      have "length rest < length chunk2" .
      ultimately show ?thesis using less1 by simp
    next
      case dash: False
      from "1.prems" False esc dash
      have rec: "parseRanges r (match \<or> (lo \<le> r \<and> r \<le> lo)) (Suc nrange) chunk1
                      = Inr (found, rest)"
        by (subst (asm) parseRanges.simps) auto
      from "1.IH"(2) [OF False esc refl dash rec]
      have "length rest < length chunk1" .
      with less1 show ?thesis by simp
    qed
  qed
qed

text \<open>
  \<^verbatim>\<open>matchChunk\<close>: the loop over the chunk, with the variables \<^verbatim>\<open>failed\<close>, \<^verbatim>\<open>chunk\<close> and
  \<^verbatim>\<open>s\<close>. After the match has failed the loop goes on through the chunk, to find its
  syntax errors, and reads \<^verbatim>\<open>s\<close> no more. The result is the error, or \<open>None\<close> for
  \<^verbatim>\<open>ok = false\<close>, or the rest of \<^verbatim>\<open>s\<close> for \<^verbatim>\<open>ok = true\<close>.
\<close>

function matchChunk_loop :: "bool \<Rightarrow> string \<Rightarrow> string \<Rightarrow> error + string option" where
  "matchChunk_loop failed chunk s =
     (if chunk = [] then (if failed then Inr None else Inr (Some s))
      else if hd chunk = CHR ''[''
        then (case parseRanges (if failed \<or> s = [] then 0 else fst (DecodeRune s)) False 0
                     (if tl chunk \<noteq> [] \<and> hd (tl chunk) = CHR ''^'' then tl (tl chunk)
                      else tl chunk) of
                Inl err \<Rightarrow> Inl err
              | Inr (found, rest) \<Rightarrow>
                  matchChunk_loop
                    (failed \<or> s = []
                       \<or> found = (tl chunk \<noteq> [] \<and> hd (tl chunk) = CHR ''^''))
                    rest
                    (if failed \<or> s = [] then s else drop (snd (DecodeRune s)) s))
      else if hd chunk = CHR ''?''
        then matchChunk_loop (failed \<or> s = [] \<or> hd s = CHR ''/'') (tl chunk)
               (if failed \<or> s = [] then s else drop (snd (DecodeRune s)) s)
      else if hd chunk = CHR 0x5C
        then (if tl chunk = [] then Inl ErrBadPattern
              else matchChunk_loop (failed \<or> s = [] \<or> hd (tl chunk) \<noteq> hd s) (tl (tl chunk))
                     (if failed \<or> s = [] then s else tl s))
      else matchChunk_loop (failed \<or> s = [] \<or> hd chunk \<noteq> hd s) (tl chunk)
             (if failed \<or> s = [] then s else tl s))"
  by pat_completeness auto
termination
proof (relation "measure (\<lambda>(failed, chunk, s). length chunk)", goal_cases)
  case 1
  show ?case by simp
next
  case (2 failed chunk s x found rest)
  then have "parseRanges (if failed \<or> s = [] then 0 else fst (DecodeRune s)) False 0
               (if tl chunk \<noteq> [] \<and> hd (tl chunk) = CHR ''^'' then tl (tl chunk) else tl chunk)
             = Inr (found, rest)"
    by simp
  then have "length rest
      < length (if tl chunk \<noteq> [] \<and> hd (tl chunk) = CHR ''^'' then tl (tl chunk) else tl chunk)"
    by (rule parseRanges_shorter)
  then show ?case by (auto split: if_splits)
next
  case (3 failed chunk s)
  then show ?case by (cases chunk) auto
next
  case (4 failed chunk s)
  then show ?case by (cases chunk) auto
next
  case (5 failed chunk s)
  then show ?case by (cases chunk) auto
qed

declare matchChunk_loop.simps [simp del]

definition matchChunk :: "string \<Rightarrow> string \<Rightarrow> error + string option" where
  "matchChunk chunk s = matchChunk_loop False chunk s"

text \<open>
  \<^verbatim>\<open>scanChunk\<close>: the leading stars are dropped, and the chunk runs up to the next star
  outside a character class. \<open>scanIndex\<close> is the loop labelled \<^verbatim>\<open>Scan\<close>: the index at
  which it stops; a backslash takes the byte after it along.
\<close>

fun scanIndex :: "bool \<Rightarrow> string \<Rightarrow> nat" where
  "scanIndex inrange [] = 0"
| "scanIndex inrange [c] = (if c = CHR ''*'' \<and> \<not> inrange then 0 else 1)"
| "scanIndex inrange (c # d # pattern) =
     (if c = CHR 0x5C then 2 + scanIndex inrange pattern
      else if c = CHR ''['' then 1 + scanIndex True (d # pattern)
      else if c = CHR '']'' then 1 + scanIndex False (d # pattern)
      else if c = CHR ''*'' then (if \<not> inrange then 0 else 1 + scanIndex inrange (d # pattern))
      else 1 + scanIndex inrange (d # pattern))"

definition noStars :: "string \<Rightarrow> string" where
  "noStars pattern = dropWhile (\<lambda>c. c = CHR ''*'') pattern"

definition scanChunk :: "string \<Rightarrow> bool \<times> string \<times> string" where
  "scanChunk pattern =
     (pattern \<noteq> [] \<and> hd pattern = CHR ''*'',
      take (scanIndex False (noStars pattern)) (noStars pattern),
      drop (scanIndex False (noStars pattern)) (noStars pattern))"

definition star_of :: "string \<Rightarrow> bool" where
  "star_of pattern = fst (scanChunk pattern)"

definition chunk_of :: "string \<Rightarrow> string" where
  "chunk_of pattern = fst (snd (scanChunk pattern))"

definition rest_of :: "string \<Rightarrow> string" where
  "rest_of pattern = snd (snd (scanChunk pattern))"

lemma scanIndex_pos: "pattern \<noteq> [] \<Longrightarrow> hd pattern \<noteq> CHR ''*'' \<Longrightarrow> 0 < scanIndex inrange pattern"
  by (induction inrange pattern rule: scanIndex.induct) auto

lemma noStars_hd: "noStars pattern \<noteq> [] \<Longrightarrow> hd (noStars pattern) \<noteq> CHR ''*''"
  unfolding noStars_def by (metis (mono_tags, lifting) hd_dropWhile)

lemma rest_of_shorter: "pattern \<noteq> [] \<Longrightarrow> length (rest_of pattern) < length pattern"
proof -
  assume nonempty: "pattern \<noteq> []"
  have le: "length (noStars pattern) \<le> length pattern"
    by (simp add: noStars_def length_dropWhile_le)
  show ?thesis
  proof (cases "noStars pattern = []")
    case True
    with nonempty show ?thesis by (simp add: rest_of_def scanChunk_def)
  next
    case False
    then have "0 < scanIndex False (noStars pattern)"
      by (simp add: scanIndex_pos noStars_hd)
    with False le show ?thesis
      by (cases "noStars pattern") (auto simp: rest_of_def scanChunk_def)
  qed
qed

text \<open>
  The last loop of \<^verbatim>\<open>Match\<close>: before it returns false without an error, it looks for a
  syntax error in the chunks that are left.
\<close>

function checkRest :: "string \<Rightarrow> error + unit" where
  "checkRest pattern =
     (if pattern = [] then Inr ()
      else case matchChunk (chunk_of pattern) [] of
        Inl err \<Rightarrow> Inl err
      | Inr ok \<Rightarrow> checkRest (rest_of pattern))"
  by pat_completeness auto
termination
  by (relation "measure length") (auto simp: rest_of_shorter)

declare checkRest.simps [simp del]

text \<open>
  The loop after a star: it looks for a match of the chunk that starts after \<open>i + 1\<close>
  bytes of the name, and does not skip a slash. \<open>final\<close> says that the chunk is the last
  one of the pattern (\<^verbatim>\<open>len(pattern) == 0\<close>). Its result is an error, or the rest of the
  name with which the loop labelled \<^verbatim>\<open>Pattern\<close> goes on, or \<open>None\<close> when it has run to its
  end.
\<close>

function starLoop :: "string \<Rightarrow> bool \<Rightarrow> string \<Rightarrow> nat \<Rightarrow> error + string option" where
  "starLoop chunk final name i =
     (if i < length name \<and> name ! i \<noteq> CHR ''/''
        then (case matchChunk chunk (drop (i + 1) name) of
                Inl err \<Rightarrow> Inl err
              | Inr None \<Rightarrow> starLoop chunk final name (i + 1)
              | Inr (Some t) \<Rightarrow>
                  if final \<and> length t > 0 then starLoop chunk final name (i + 1)
                  else Inr (Some t))
      else Inr None)"
  by pat_completeness auto
termination
  by (relation "measure (\<lambda>(chunk, final, name, i). length name - i)") auto

declare starLoop.simps [simp del]

text \<open>\<^verbatim>\<open>Match\<close>: one turn of the loop labelled \<^verbatim>\<open>Pattern\<close> for each chunk.\<close>

function Match :: "string \<Rightarrow> string \<Rightarrow> error + bool" where
  "Match pattern name =
     (if pattern = [] then Inr (length name = 0)
      else if star_of pattern \<and> chunk_of pattern = [] then Inr (CHR ''/'' \<notin> set name)
      else case matchChunk (chunk_of pattern) name of
        Inl err \<Rightarrow> Inl err
      | Inr found \<Rightarrow>
          if found \<noteq> None \<and> (length (the found) = 0 \<or> length (rest_of pattern) > 0)
            then Match (rest_of pattern) (the found)
          else case (if star_of pattern
                       then starLoop (chunk_of pattern) (rest_of pattern = []) name 0
                     else Inr None) of
                 Inl err \<Rightarrow> Inl err
               | Inr (Some t) \<Rightarrow> Match (rest_of pattern) t
               | Inr None \<Rightarrow>
                   (case checkRest (rest_of pattern) of
                      Inl err \<Rightarrow> Inl err
                    | Inr ok \<Rightarrow> Inr False))"
  by pat_completeness auto
termination
  by (relation "measure (\<lambda>(pattern, name). length pattern)") (auto simp: rest_of_shorter)

declare Match.simps [simp del]

text \<open>
  \<^verbatim>\<open>Outputs.Present\<close> (lines 60 to 72) and \<^verbatim>\<open>Outputs.Connected\<close> (lines 76 to 88): the
  loop over the outputs returns false at the first output for which \<^verbatim>\<open>path.Match\<close>
  reports an error.
\<close>

fun Present :: "Outputs \<Rightarrow> string \<Rightarrow> bool" where
  "Present [] name = False"
| "Present (out # os) name =
     (case Match name (Output_Name out) of
        Inl err \<Rightarrow> False
      | Inr m \<Rightarrow> if m then True else Present os name)"

fun Connected :: "Outputs \<Rightarrow> string \<Rightarrow> bool" where
  "Connected [] name = False"
| "Connected (out # os) name =
     (case Match name (Output_Name out) of
        Inl err \<Rightarrow> False
      | Inr m \<Rightarrow> if m \<and> Output_Connected out then True else Connected os name)"

section \<open>Evaluation rules\<close>

text \<open>
  The recursive equations of the scanners, split by the shape of the input, so that the
  simplifier runs the model on a concrete report.
\<close>

lemma DecodeRune_ascii: "of_char c < (0x80::nat) \<Longrightarrow> DecodeRune (c # cs) = (of_char c, 1)"
  by (simp add: DecodeRune_def byte_def)

lemma spaceAhead_ascii:
  "of_char c < (0x80::nat) \<Longrightarrow> spaceAhead (c # cs) = isSpace (of_char c)"
  by (simp add: spaceAhead_def DecodeRune_ascii)

lemma runeWidth_ascii: "of_char c < (0x80::nat) \<Longrightarrow> runeWidth (c # cs) = 1"
  by (simp add: runeWidth_def DecodeRune_ascii)

lemma skipSpaces_Nil: "skipSpaces [] = []"
  by (subst skipSpaces.simps) simp

lemma skipSpaces_Cons:
  "skipSpaces (c # cs) =
     (if spaceAhead (c # cs) then skipSpaces (drop (runeWidth (c # cs)) (c # cs)) else c # cs)"
  by (subst skipSpaces.simps) simp

lemma scanWord_Nil: "scanWord token [] = (token, [])"
  by (subst scanWord.simps) simp

lemma scanWord_Cons:
  "scanWord token (c # cs) =
     (if spaceAhead (c # cs) then (token, drop (runeWidth (c # cs)) (c # cs))
      else scanWord (token @ take (runeWidth (c # cs)) (c # cs))
             (drop (runeWidth (c # cs)) (c # cs)))"
  by (subst scanWord.simps) simp

lemma ScanWords_none: "skipSpaces data = [] \<Longrightarrow> ScanWords data = []"
  by (subst ScanWords.simps) simp

lemma ScanWords_some:
  "skipSpaces data = c # cs \<Longrightarrow>
     ScanWords data =
       (if tokenTooLong (c # cs) then []
        else fst (scanWord [] (c # cs)) # ScanWords (snd (scanWord [] (c # cs))))"
  by (subst ScanWords.simps) simp

lemma ScanLines_Nil: "ScanLines [] = []"
  by (subst ScanLines.simps) simp

lemma ScanLines_Cons:
  "ScanLines (c # cs) =
     (if MaxScanTokenSize \<le> length (firstLine (c # cs)) then []
      else dropCR (firstLine (c # cs))
             # ScanLines (drop (Suc (length (firstLine (c # cs)))) (c # cs)))"
  by (subst ScanLines.simps) simp

lemmas scan_eval =
  spaceAhead_ascii runeWidth_ascii skipSpaces_Nil skipSpaces_Cons scanWord_Nil scanWord_Cons
  ScanWords_none ScanWords_some ScanLines_Nil ScanLines_Cons isSpace_def MaxScanTokenSize_def
  tokenTooLong_def
  firstLine_def dropCR_def

lemmas parse_eval =
  RandrParse_def parseModeLine_def parseOutputLine_def Output_zero_def Mode_zero_def scan_eval

lemmas build_eval =
  BuildCommandOutputRow_def resolveOutputs_def Rule_zero_def disableOutputArgs_def
  remainingDisable_def disableOutputs_def active_def enableOutputArgs_def SplitN2_def
  severalCalls_def offArgs_def rangeOrder_def Let_def

section \<open>The loops of the command synthesizer in closed form\<close>

lemma collectRemaining_eq: "collectRemaining ks acc = acc @ map offArgs ks"
  by (induction ks arbitrary: acc) simp_all

lemma collectDisable_eq:
  "collectDisable act current D =
     D \<union> {Output_Name out | out. out \<in> set current
            \<and> (Output_Connected out \<or> Output_Modes out \<noteq> []) \<and> Output_Name out \<notin> act}"
  by (induction current arbitrary: D) auto

lemma remdups_snoc: "remdups (ys @ [x]) = filter (\<lambda>y. y \<noteq> x) (remdups ys) @ [x]"
  by (induction ys) auto

lemma firsts_Cons:
  "rev (remdups (rev (x # xs))) = x # rev (remdups (rev (filter (\<lambda>y. y \<noteq> x) xs)))"
  by (simp add: remdups_snoc rev_filter remdups_filter)

lemma honourDisableOrder_eq:
  "honourDisableOrder order (D, acc) =
     (D - set order, acc @ map offArgs (rev (remdups (rev (filter (\<lambda>n. n \<in> D) order)))))"
proof (induction order arbitrary: D acc)
  case Nil
  show ?case by simp
next
  case (Cons n ns)
  show ?case
  proof (cases "n \<in> D")
    case True
    have f: "filter (\<lambda>y. y \<noteq> n) (filter (\<lambda>m. m \<in> D) ns) = filter (\<lambda>m. m \<in> D - {n}) ns"
      by (induction ns) auto
    have d: "D - {n} - set ns = D - set (n # ns)" by auto
    have "honourDisableOrder (n # ns) (D, acc)
            = honourDisableOrder ns (D - {n}, acc @ [offArgs n])"
      using True by simp
    also have "\<dots> = (D - {n} - set ns,
        (acc @ [offArgs n])
          @ map offArgs (rev (remdups (rev (filter (\<lambda>m. m \<in> D - {n}) ns)))))"
      by (rule Cons.IH)
    also have "\<dots> = (D - set (n # ns),
        acc @ map offArgs
                (n # rev (remdups (rev (filter (\<lambda>y. y \<noteq> n) (filter (\<lambda>m. m \<in> D) ns))))))"
      unfolding f d by simp
    also have "n # rev (remdups (rev (filter (\<lambda>y. y \<noteq> n) (filter (\<lambda>m. m \<in> D) ns))))
        = rev (remdups (rev (filter (\<lambda>m. m \<in> D) (n # ns))))"
      using True firsts_Cons [of n "filter (\<lambda>m. m \<in> D) ns"] by simp
    finally show ?thesis .
  next
    case False
    then have "D - set ns = D - set (n # ns)" by auto
    with False show ?thesis
      using Cons.IH [of D acc] by simp
  qed
qed

lemma splitCalls_length:
  "length (splitCalls ds es cmds) = length cmds + max (length ds) (length es)"
  by (induction ds es cmds rule: splitCalls.induct) simp_all

lemma splitCalls_first: "cmds \<noteq> [] \<Longrightarrow> splitCalls ds es cmds ! 0 = cmds ! 0"
  by (induction ds es cmds rule: splitCalls.induct) (simp_all add: nth_append)

lemma enableOutputs_args_length:
  "length (snd (snd (enableOutputs i outputs (a, l, acc)))) = length acc + length outputs"
  by (induction outputs arbitrary: i a l acc) (simp_all add: Let_def)

lemma enableOutputs_active:
  "fst (enableOutputs i outputs (a, l, acc))
     = a \<union> (\<lambda>output. SplitN2 (CHR ''@'') output ! 0) ` set outputs"
  by (induction outputs arbitrary: i a l acc) (simp_all add: Let_def)

lemma disableOutputArgs_eq:
  "disableOutputArgs ks rule outputs current =
     map offArgs (rev (remdups (rev (filter (\<lambda>n. n \<in> disableOutputs outputs current)
                                     (Rule_DisableOrder rule)))))
     @ map offArgs ks"
  by (simp add: disableOutputArgs_def honourDisableOrder_eq collectRemaining_eq)

lemma remainingDisable_eq:
  "remainingDisable rule outputs current
     = disableOutputs outputs current - set (Rule_DisableOrder rule)"
  by (simp add: remainingDisable_def honourDisableOrder_eq)

lemma disableOutputs_eq:
  "disableOutputs outputs current =
     {Output_Name out | out. out \<in> set current
        \<and> (Output_Connected out \<or> Output_Modes out \<noteq> [])
        \<and> Output_Name out \<notin> active outputs}"
  by (simp add: disableOutputs_def collectDisable_eq)

lemma offArgs_inj: "offArgs a = offArgs b \<longleftrightarrow> a = b"
  by (simp add: offArgs_def)

lemma offArgs_in_disableOutputArgs:
  assumes "rangeOrder (remainingDisable rule outputs current) ks"
  shows "offArgs n \<in> set (disableOutputArgs ks rule outputs current)
           \<longleftrightarrow> n \<in> disableOutputs outputs current"
proof -
  from assms have ks: "set ks = disableOutputs outputs current - set (Rule_DisableOrder rule)"
    by (simp add: rangeOrder_def remainingDisable_eq)
  have "offArgs n \<in> set (disableOutputArgs ks rule outputs current)
          \<longleftrightarrow> n \<in> set (filter (\<lambda>n. n \<in> disableOutputs outputs current) (Rule_DisableOrder rule))
                    \<union> set ks"
    by (auto simp: disableOutputArgs_eq offArgs_inj)
  with ks show ?thesis by auto
qed

lemma mem_disableOutputs:
  "n \<in> disableOutputs outputs current \<longleftrightarrow>
     n \<notin> active outputs
     \<and> (\<exists>other \<in> set current. Output_Name other = n
            \<and> (Output_Connected other \<or> Output_Modes other \<noteq> []))"
  unfolding disableOutputs_eq by blast

lemma disableGroup_offArgs: "disableGroup (offArgs name)"
  by (simp add: disableGroup_def offArgs_def)

lemma disableOutputArgs_shape: "list_all disableGroup (disableOutputArgs ks rule outputs current)"
  by (auto simp: disableOutputArgs_eq list_all_iff disableGroup_offArgs)

lemma enableGroup_args:
  "enableGroup
     ([''--output'', name] @ (if mode = [] then [''--auto''] else [''--mode'', mode]) @ tail)"
  by (simp add: enableGroup_def)

lemma enableOutputs_args_shape:
  "list_all enableGroup acc
   \<Longrightarrow> list_all enableGroup (snd (snd (enableOutputs i outputs (a, l, acc))))"
proof (induction outputs arbitrary: i a l acc)
  case Nil
  then show ?case by simp
next
  case (Cons out outs)
  let ?data = "SplitN2 (CHR ''@'') out"
  let ?args = "[''--output'', ?data ! 0]
                 @ (if (if length ?data > 1 then ?data ! 1 else []) = [] then [''--auto'']
                    else [''--mode'', (if length ?data > 1 then ?data ! 1 else [])])
                 @ (if i > 0 then [''--right-of'', l] else [])"
  have "enableGroup ?args" by (rule enableGroup_args)
  with Cons.prems have "list_all enableGroup (acc @ [?args])" by simp
  then have "list_all enableGroup
      (snd (snd (enableOutputs (Suc i) outs (insert (?data ! 0) a, ?data ! 0, acc @ [?args]))))"
    by (rule Cons.IH)
  then show ?case by (simp only: enableOutputs.simps Let_def)
qed

lemma enableOutputArgs_shape: "list_all enableGroup (enableOutputArgs outputs)"
  unfolding enableOutputArgs_def by (rule enableOutputs_args_shape) simp

lemma enableOutputArgs_length: "length (enableOutputArgs outputs) = length outputs"
  by (simp add: enableOutputArgs_def enableOutputs_args_length)

section \<open>The groups in the commands that are returned\<close>

text \<open>
  The disable groups at the head of the commands of the result are \<^verbatim>\<open>disableOutputArgs\<close>, in
  its order, and the arguments after them are the enable groups, in their order: for the
  one command of an atomic rule and for the several commands of a rule that is not
  atomic.
\<close>

lemma disableGroup_cases:
  "disableGroup g \<Longrightarrow> \<exists>name. g = [''--output'', name, ''--off'']"
  unfolding disableGroup_def
  by (cases g; cases "tl g"; cases "tl (tl g)") auto

lemma enableGroup_cases:
  "enableGroup g \<Longrightarrow> \<exists>name b tail. g = ''--output'' # name # b # tail \<and> b \<noteq> ''--off''"
  unfolding enableGroup_def
  by (cases g; cases "tl g"; cases "tl (tl g)") auto

lemma offGroups_disable: "disableGroup g \<Longrightarrow> offGroups (g @ args) = g # offGroups args"
  by (drule disableGroup_cases) auto

lemma offGroups_enable: "enableGroup g \<Longrightarrow> offGroups (g @ args) = []"
  by (drule enableGroup_cases) auto

lemma offGroups_concat:
  "list_all disableGroup ds \<Longrightarrow> offGroups (concat ds @ args) = ds @ offGroups args"
  by (induction ds) (simp_all add: offGroups_disable)

lemma offGroups_concat_enable: "list_all enableGroup es \<Longrightarrow> offGroups (concat es) = []"
  by (cases es) (simp_all add: offGroups_enable)

lemma length_concat_disable: "list_all disableGroup ds \<Longrightarrow> length (concat ds) = 3 * length ds"
  by (induction ds) (simp_all add: disableGroup_def)

lemma disableGroupsOf_snoc:
  "disableGroupsOf (cmds @ [Command name args]) = disableGroupsOf cmds @ offGroups args"
  by (simp add: disableGroupsOf_def argsOf_def)

lemma enableArgsOf_snoc:
  "enableArgsOf (cmds @ [Command name args])
     = enableArgsOf cmds @ drop (3 * length (offGroups args)) args"
  by (simp add: enableArgsOf_def argsOf_def)

lemma splitCalls_disableGroupsOf:
  "list_all disableGroup ds \<Longrightarrow> list_all enableGroup es \<Longrightarrow>
   disableGroupsOf (splitCalls ds es cmds) = disableGroupsOf cmds @ ds"
proof (induction ds es cmds rule: splitCalls.induct)
  case (1 cmds)
  show ?case by simp
next
  case (2 disableArgs ds cmds)
  then show ?case
    using offGroups_disable [of disableArgs "[]"] by (simp add: disableGroupsOf_snoc)
next
  case (3 enableArgs es cmds)
  then show ?case
    using offGroups_enable [of enableArgs "[]"] by (simp add: disableGroupsOf_snoc)
next
  case (4 disableArgs ds enableArgs es cmds)
  then show ?case
    using offGroups_disable [of disableArgs enableArgs] offGroups_enable [of enableArgs "[]"]
    by (simp add: disableGroupsOf_snoc)
qed

lemma splitCalls_enableArgsOf:
  "list_all disableGroup ds \<Longrightarrow> list_all enableGroup es \<Longrightarrow>
   enableArgsOf (splitCalls ds es cmds) = enableArgsOf cmds @ concat es"
proof (induction ds es cmds rule: splitCalls.induct)
  case (1 cmds)
  show ?case by simp
next
  case (2 disableArgs ds cmds)
  then show ?case
    using offGroups_disable [of disableArgs "[]"]
    by (simp add: enableArgsOf_snoc disableGroup_def)
next
  case (3 enableArgs es cmds)
  then show ?case
    using offGroups_enable [of enableArgs "[]"] by (simp add: enableArgsOf_snoc)
next
  case (4 disableArgs ds enableArgs es cmds)
  then show ?case
    using offGroups_disable [of disableArgs enableArgs] offGroups_enable [of enableArgs "[]"]
    by (simp add: enableArgsOf_snoc disableGroup_def)
qed

lemma disableGroupsOf_Nil: "disableGroupsOf [] = []"
  by (simp add: disableGroupsOf_def)

lemma enableArgsOf_Nil: "enableArgsOf [] = []"
  by (simp add: enableArgsOf_def)

lemma disableGroupsOf_one: "disableGroup d \<Longrightarrow> disableGroupsOf [Command name d] = [d]"
  using offGroups_disable [of d "[]"] by (simp add: disableGroupsOf_def argsOf_def)

lemma enableArgsOf_one: "disableGroup d \<Longrightarrow> enableArgsOf [Command name d] = []"
  using offGroups_disable [of d "[]"]
  by (simp add: enableArgsOf_def argsOf_def disableGroup_def)

lemma severalCalls_groups:
  assumes "list_all disableGroup ds" and "list_all enableGroup es"
  shows "disableGroupsOf (severalCalls ds es) = ds"
    and "enableArgsOf (severalCalls ds es) = concat es"
proof -
  show "disableGroupsOf (severalCalls ds es) = ds"
  proof (cases ds)
    case Nil
    have "disableGroupsOf (splitCalls [] es []) = disableGroupsOf [] @ []"
      using assms(2) by (intro splitCalls_disableGroupsOf) simp_all
    with Nil show ?thesis
      by (simp add: severalCalls_def disableGroupsOf_Nil)
  next
    case (Cons d ds')
    with assms have d: "disableGroup d" and ds': "list_all disableGroup ds'" by simp_all
    have "disableGroupsOf (splitCalls ds' es [Command ''xrandr'' d])
            = disableGroupsOf [Command ''xrandr'' d] @ ds'"
      using ds' assms(2) by (rule splitCalls_disableGroupsOf)
    with Cons d show ?thesis
      by (simp add: severalCalls_def disableGroupsOf_one)
  qed
  show "enableArgsOf (severalCalls ds es) = concat es"
  proof (cases ds)
    case Nil
    have "enableArgsOf (splitCalls [] es []) = enableArgsOf [] @ concat es"
      using assms(2) by (intro splitCalls_enableArgsOf) simp_all
    with Nil show ?thesis
      by (simp add: severalCalls_def enableArgsOf_Nil)
  next
    case (Cons d ds')
    with assms have d: "disableGroup d" and ds': "list_all disableGroup ds'" by simp_all
    have "enableArgsOf (splitCalls ds' es [Command ''xrandr'' d])
            = enableArgsOf [Command ''xrandr'' d] @ concat es"
      using ds' assms(2) by (rule splitCalls_enableArgsOf)
    with Cons d show ?thesis
      by (simp add: severalCalls_def enableArgsOf_one)
  qed
qed

lemma oneCall_groups:
  assumes "list_all disableGroup ds" and "list_all enableGroup es"
  shows "disableGroupsOf [Command ''xrandr'' (concat ds @ concat es)] = ds"
    and "enableArgsOf [Command ''xrandr'' (concat ds @ concat es)] = concat es"
  using assms
  by (simp_all add: disableGroupsOf_def enableArgsOf_def argsOf_def offGroups_concat
      offGroups_concat_enable length_concat_disable)

lemma BuildCommandOutputRow_groups:
  assumes "resolveOutputs rule = Inr outputs"
  shows "\<exists>cmds. BuildCommandOutputRow ks rule current = Inr cmds
           \<and> disableGroupsOf cmds = disableOutputArgs ks rule outputs current
           \<and> enableArgsOf cmds = concat (enableOutputArgs outputs)"
  using assms
    severalCalls_groups [OF disableOutputArgs_shape enableOutputArgs_shape,
      of ks rule outputs current outputs]
    oneCall_groups [OF disableOutputArgs_shape enableOutputArgs_shape,
      of ks rule outputs current outputs]
  by (simp add: BuildCommandOutputRow_def)

lemmas cmd_eval = disableGroupsOf_def enableArgsOf_def argsOf_def

section \<open>The syntax errors of a pattern do not depend on the name\<close>

text \<open>
  \<^verbatim>\<open>path.Match\<close> reports \<^verbatim>\<open>ErrBadPattern\<close> for a pattern and a name exactly when the check of
  the chunks of the pattern against the empty name does: the parse of a chunk goes on
  after the match has failed, and reads the name no more.
\<close>

lemma parseRanges_rest:
  "map_sum id snd (parseRanges r m n chunk) = map_sum id snd (parseRanges r' m' n chunk)"
proof (induction r m n chunk arbitrary: r' m' rule: parseRanges.induct)
  case (1 r m n chunk)
  show ?case
  proof (cases "chunk \<noteq> [] \<and> hd chunk = CHR '']'' \<and> n > 0")
    case True
    then have "parseRanges r m n chunk = Inr (m, tl chunk)"
      and "parseRanges r' m' n chunk = Inr (m', tl chunk)"
      by (auto simp: parseRanges.simps [of _ _ n chunk])
    then show ?thesis by simp
  next
    case False
    show ?thesis
    proof (cases "getEsc chunk")
      case (Inl err)
      with False have "parseRanges r m n chunk = Inl err"
        and "parseRanges r' m' n chunk = Inl err"
        by (auto simp: parseRanges.simps [of _ _ n chunk])
      then show ?thesis by simp
    next
      case (Inr x)
      obtain lo chunk1 where esc: "getEsc chunk = Inr (lo, chunk1)"
        using Inr by (cases x) simp
      show ?thesis
      proof (cases "hd chunk1 = CHR ''-''")
        case True
        show ?thesis
        proof (cases "getEsc (tl chunk1)")
          case (Inl err)
          with False esc True have "parseRanges r m n chunk = Inl err"
            and "parseRanges r' m' n chunk = Inl err"
            by (auto simp: parseRanges.simps [of _ _ n chunk])
          then show ?thesis by simp
        next
          case (Inr y)
          obtain hi chunk2 where esc2: "getEsc (tl chunk1) = Inr (hi, chunk2)"
            using Inr by (cases y) simp
          from False esc True esc2
          have u1: "parseRanges r m n chunk
                      = parseRanges r (m \<or> (lo \<le> r \<and> r \<le> hi)) (Suc n) chunk2"
            and u2: "parseRanges r' m' n chunk
                      = parseRanges r' (m' \<or> (lo \<le> r' \<and> r' \<le> hi)) (Suc n) chunk2"
            by (auto simp: parseRanges.simps [of _ _ n chunk])
          show ?thesis
            unfolding u1 u2 by (rule "1.IH"(1) [OF False esc refl True esc2 refl])
        qed
      next
        case dash: False
        from False esc dash
        have u1: "parseRanges r m n chunk
                    = parseRanges r (m \<or> (lo \<le> r \<and> r \<le> lo)) (Suc n) chunk1"
          and u2: "parseRanges r' m' n chunk
                    = parseRanges r' (m' \<or> (lo \<le> r' \<and> r' \<le> lo)) (Suc n) chunk1"
          by (auto simp: parseRanges.simps [of _ _ n chunk])
        show ?thesis
          unfolding u1 u2 by (rule "1.IH"(2) [OF False esc refl dash])
      qed
    qed
  qed
qed


lemma parseRanges_error:
  assumes "parseRanges r m n chunk = Inl err"
  shows "parseRanges r' m' n chunk = Inl err"
proof -
  have "map_sum id snd (parseRanges r' m' n chunk) = map_sum id snd (parseRanges r m n chunk)"
    by (rule parseRanges_rest)
  then have "map_sum id snd (parseRanges r' m' n chunk) = Inl err"
    by (simp only: assms map_sum.simps id_apply)
  then show ?thesis
    by (cases "parseRanges r' m' n chunk")
      (simp_all only: map_sum.simps id_apply sum.inject sum.distinct)
qed

lemma parseRanges_found:
  assumes "parseRanges r m n chunk = Inr (found, rest)"
  shows "\<exists>found'. parseRanges r' m' n chunk = Inr (found', rest)"
proof -
  have "map_sum id snd (parseRanges r' m' n chunk) = map_sum id snd (parseRanges r m n chunk)"
    by (rule parseRanges_rest)
  then have *: "map_sum id snd (parseRanges r' m' n chunk) = Inr rest"
    by (simp only: assms map_sum.simps snd_conv)
  show ?thesis
  proof (cases "parseRanges r' m' n chunk")
    case (Inl e)
    with * show ?thesis by (simp only: map_sum.simps sum.distinct)
  next
    case (Inr x)
    obtain found' rest' where x: "x = (found', rest')" by (cases x)
    from * Inr have "snd x = rest" by (simp only: map_sum.simps sum.inject)
    then have "rest' = rest" by (simp only: x snd_conv)
    with Inr x show ?thesis by (intro exI [of _ found']) (simp only:)
  qed
qed

lemma matchChunk_loop_Nil:
  "matchChunk_loop failed [] s = (if failed then Inr None else Inr (Some s))"
  by (subst matchChunk_loop.simps) simp

lemma matchChunk_loop_class:
  "chunk \<noteq> [] \<Longrightarrow> hd chunk = CHR ''['' \<Longrightarrow>
   parseRanges (if failed \<or> s = [] then 0 else fst (DecodeRune s)) False 0
     (if tl chunk \<noteq> [] \<and> hd (tl chunk) = CHR ''^'' then tl (tl chunk) else tl chunk)
     = Inr (found, rest) \<Longrightarrow>
   matchChunk_loop failed chunk s =
     matchChunk_loop
       (failed \<or> s = [] \<or> found = (tl chunk \<noteq> [] \<and> hd (tl chunk) = CHR ''^''))
       rest (if failed \<or> s = [] then s else drop (snd (DecodeRune s)) s)"
  by (subst matchChunk_loop.simps) simp

lemma matchChunk_loop_class_error:
  "chunk \<noteq> [] \<Longrightarrow> hd chunk = CHR ''['' \<Longrightarrow>
   parseRanges (if failed \<or> s = [] then 0 else fst (DecodeRune s)) False 0
     (if tl chunk \<noteq> [] \<and> hd (tl chunk) = CHR ''^'' then tl (tl chunk) else tl chunk)
     = Inl err \<Longrightarrow>
   matchChunk_loop failed chunk s = Inl err"
  by (subst matchChunk_loop.simps) simp

lemma matchChunk_loop_query:
  "chunk \<noteq> [] \<Longrightarrow> hd chunk = CHR ''?'' \<Longrightarrow>
   matchChunk_loop failed chunk s =
     matchChunk_loop (failed \<or> s = [] \<or> hd s = CHR ''/'') (tl chunk)
       (if failed \<or> s = [] then s else drop (snd (DecodeRune s)) s)"
  by (subst matchChunk_loop.simps) simp

lemma matchChunk_loop_backslash_alone:
  "chunk \<noteq> [] \<Longrightarrow> hd chunk = CHR 0x5C \<Longrightarrow> tl chunk = [] \<Longrightarrow>
   matchChunk_loop failed chunk s = Inl ErrBadPattern"
  by (subst matchChunk_loop.simps) simp

lemma matchChunk_loop_backslash:
  "chunk \<noteq> [] \<Longrightarrow> hd chunk = CHR 0x5C \<Longrightarrow> tl chunk \<noteq> [] \<Longrightarrow>
   matchChunk_loop failed chunk s =
     matchChunk_loop (failed \<or> s = [] \<or> hd (tl chunk) \<noteq> hd s) (tl (tl chunk))
       (if failed \<or> s = [] then s else tl s)"
  by (subst matchChunk_loop.simps) simp

lemma matchChunk_loop_plain:
  "chunk \<noteq> [] \<Longrightarrow> hd chunk \<noteq> CHR ''['' \<Longrightarrow> hd chunk \<noteq> CHR ''?'' \<Longrightarrow> hd chunk \<noteq> CHR 0x5C \<Longrightarrow>
   matchChunk_loop failed chunk s =
     matchChunk_loop (failed \<or> s = [] \<or> hd chunk \<noteq> hd s) (tl chunk)
       (if failed \<or> s = [] then s else tl s)"
  by (subst matchChunk_loop.simps) simp


lemma matchChunk_loop_error:
  "matchChunk_loop failed chunk s = Inl err \<Longrightarrow> matchChunk_loop failed' chunk s' = Inl err"
proof (induction failed chunk s arbitrary: failed' s' rule: matchChunk_loop.induct)
  case (1 failed chunk s)
  note run = "1.prems"
  show ?case
  proof (cases "chunk = []")
    case True
    with run have "(if failed then Inr None else Inr (Some s)) = (Inl err :: error + string option)"
      by (simp only: matchChunk_loop_Nil)
    then show ?thesis by (simp split: if_splits)
  next
    case nonempty: False
    show ?thesis
    proof (cases "hd chunk = CHR ''[''")
      case True
      let ?ranges = "if tl chunk \<noteq> [] \<and> hd (tl chunk) = CHR ''^'' then tl (tl chunk) else tl chunk"
      let ?r = "if failed \<or> s = [] then 0 else fst (DecodeRune s)"
      let ?r' = "if failed' \<or> s' = [] then 0 else fst (DecodeRune s')"
      show ?thesis
      proof (cases "parseRanges ?r False 0 ?ranges")
        case (Inl e)
        have "matchChunk_loop failed chunk s = Inl e"
          using nonempty True Inl by (rule matchChunk_loop_class_error)
        with run have "e = err" by (simp only: sum.inject)
        with Inl have "parseRanges ?r False 0 ?ranges = Inl err" by (simp only:)
        then have "parseRanges ?r' False 0 ?ranges = Inl err"
          by (rule parseRanges_error)
        with nonempty True show ?thesis by (rule matchChunk_loop_class_error)
      next
        case (Inr x)
        obtain found rest where x: "x = (found, rest)" by (cases x)
        from Inr x have ranges: "parseRanges ?r False 0 ?ranges = Inr (found, rest)"
          by (simp only:)
        then obtain found' where ranges': "parseRanges ?r' False 0 ?ranges = Inr (found', rest)"
          using parseRanges_found by blast
        from run
        have rec: "matchChunk_loop
                    (failed \<or> s = [] \<or> found = (tl chunk \<noteq> [] \<and> hd (tl chunk) = CHR ''^''))
                    rest (if failed \<or> s = [] then s else drop (snd (DecodeRune s)) s) = Inl err"
          by (simp only: matchChunk_loop_class [OF nonempty True ranges])
        have "matchChunk_loop
                    (failed' \<or> s' = [] \<or> found' = (tl chunk \<noteq> [] \<and> hd (tl chunk) = CHR ''^''))
                    rest (if failed' \<or> s' = [] then s' else drop (snd (DecodeRune s')) s') = Inl err"
          by (rule "1.IH"(1) [OF nonempty True ranges refl rec])
        then show ?thesis
          by (simp only: matchChunk_loop_class [OF nonempty True ranges'])
      qed
    next
      case noclass: False
      show ?thesis
      proof (cases "hd chunk = CHR ''?''")
        case True
        from run
        have rec: "matchChunk_loop (failed \<or> s = [] \<or> hd s = CHR ''/'') (tl chunk)
               (if failed \<or> s = [] then s else drop (snd (DecodeRune s)) s) = Inl err"
          by (simp only: matchChunk_loop_query [OF nonempty True])
        have "matchChunk_loop (failed' \<or> s' = [] \<or> hd s' = CHR ''/'') (tl chunk)
               (if failed' \<or> s' = [] then s' else drop (snd (DecodeRune s')) s') = Inl err"
          by (rule "1.IH"(2) [OF nonempty noclass True rec])
        then show ?thesis
          by (simp only: matchChunk_loop_query [OF nonempty True])
      next
        case noquery: False
        show ?thesis
        proof (cases "hd chunk = CHR 0x5C")
          case True
          show ?thesis
          proof (cases "tl chunk = []")
            case alone: True
            from run have "err = ErrBadPattern"
              by (simp only: matchChunk_loop_backslash_alone [OF nonempty True alone] sum.inject)
            then show ?thesis
              by (simp only: matchChunk_loop_backslash_alone [OF nonempty True alone])
          next
            case escaped: False
            from run
            have rec: "matchChunk_loop (failed \<or> s = [] \<or> hd (tl chunk) \<noteq> hd s) (tl (tl chunk))
                     (if failed \<or> s = [] then s else tl s) = Inl err"
              by (simp only: matchChunk_loop_backslash [OF nonempty True escaped])
            have "matchChunk_loop (failed' \<or> s' = [] \<or> hd (tl chunk) \<noteq> hd s') (tl (tl chunk))
                     (if failed' \<or> s' = [] then s' else tl s') = Inl err"
              by (rule "1.IH"(3) [OF nonempty noclass noquery True escaped rec])
            then show ?thesis
              by (simp only: matchChunk_loop_backslash [OF nonempty True escaped])
          qed
        next
          case plain: False
          from run
          have rec: "matchChunk_loop (failed \<or> s = [] \<or> hd chunk \<noteq> hd s) (tl chunk)
             (if failed \<or> s = [] then s else tl s) = Inl err"
            by (simp only: matchChunk_loop_plain [OF nonempty noclass noquery plain])
          have "matchChunk_loop (failed' \<or> s' = [] \<or> hd chunk \<noteq> hd s') (tl chunk)
             (if failed' \<or> s' = [] then s' else tl s') = Inl err"
            by (rule "1.IH"(4) [OF nonempty noclass noquery plain rec])
          then show ?thesis
            by (simp only: matchChunk_loop_plain [OF nonempty noclass noquery plain])
        qed
      qed
    qed
  qed
qed

lemma matchChunk_error: "matchChunk chunk s = Inl err \<Longrightarrow> matchChunk chunk s' = Inl err"
  unfolding matchChunk_def by (rule matchChunk_loop_error)

lemma Match_Nil: "Match [] name = Inr (length name = 0)"
  by (subst Match.simps) auto

lemma Match_trailing_star:
  "pattern \<noteq> [] \<Longrightarrow> star_of pattern \<Longrightarrow> chunk_of pattern = [] \<Longrightarrow>
   Match pattern name = Inr (CHR ''/'' \<notin> set name)"
  by (subst Match.simps) auto

lemma Match_chunk_error:
  "pattern \<noteq> [] \<Longrightarrow> \<not> (star_of pattern \<and> chunk_of pattern = []) \<Longrightarrow>
   matchChunk (chunk_of pattern) name = Inl err \<Longrightarrow> Match pattern name = Inl err"
  by (subst Match.simps) auto

lemma Match_chunk_ok:
  "pattern \<noteq> [] \<Longrightarrow> \<not> (star_of pattern \<and> chunk_of pattern = []) \<Longrightarrow>
   matchChunk (chunk_of pattern) name = Inr found \<Longrightarrow>
   found \<noteq> None \<and> (length (the found) = 0 \<or> length (rest_of pattern) > 0) \<Longrightarrow>
   Match pattern name = Match (rest_of pattern) (the found)"
  by (subst Match.simps) auto

lemma Match_after_star:
  "pattern \<noteq> [] \<Longrightarrow> \<not> (star_of pattern \<and> chunk_of pattern = []) \<Longrightarrow>
   matchChunk (chunk_of pattern) name = Inr found \<Longrightarrow>
   \<not> (found \<noteq> None \<and> (length (the found) = 0 \<or> length (rest_of pattern) > 0)) \<Longrightarrow>
   (if star_of pattern then starLoop (chunk_of pattern) (rest_of pattern = []) name 0
    else Inr None) = Inr (Some t) \<Longrightarrow>
   Match pattern name = Match (rest_of pattern) t"
  by (subst Match.simps) auto

lemma Match_no_match:
  "pattern \<noteq> [] \<Longrightarrow> \<not> (star_of pattern \<and> chunk_of pattern = []) \<Longrightarrow>
   matchChunk (chunk_of pattern) name = Inr found \<Longrightarrow>
   \<not> (found \<noteq> None \<and> (length (the found) = 0 \<or> length (rest_of pattern) > 0)) \<Longrightarrow>
   (if star_of pattern then starLoop (chunk_of pattern) (rest_of pattern = []) name 0
    else Inr None) = Inr None \<Longrightarrow>
   Match pattern name
     = (case checkRest (rest_of pattern) of Inl err \<Rightarrow> Inl err | Inr ok \<Rightarrow> Inr False)"
  by (subst Match.simps) auto

lemma checkRest_Nil: "checkRest [] = Inr ()"
  by (subst checkRest.simps) simp

lemma checkRest_error:
  "pattern \<noteq> [] \<Longrightarrow> matchChunk (chunk_of pattern) [] = Inl err \<Longrightarrow> checkRest pattern = Inl err"
  by (subst checkRest.simps) simp

lemma checkRest_ok:
  "pattern \<noteq> [] \<Longrightarrow> matchChunk (chunk_of pattern) [] = Inr found \<Longrightarrow>
   checkRest pattern = checkRest (rest_of pattern)"
  by (subst checkRest.simps) simp

lemma chunk_of_Nil: "chunk_of pattern = [] \<Longrightarrow> rest_of pattern = []"
proof (cases "noStars pattern = []")
  case True
  then show ?thesis by (simp add: rest_of_def scanChunk_def)
next
  case False
  then have "0 < scanIndex False (noStars pattern)"
    by (simp add: scanIndex_pos noStars_hd)
  moreover assume "chunk_of pattern = []"
  ultimately show ?thesis using False
    by (simp add: chunk_of_def scanChunk_def)
qed

lemma starLoop_no_error:
  "(\<And>s. matchChunk chunk s \<noteq> Inl err) \<Longrightarrow> starLoop chunk final name i \<noteq> Inl err"
proof (induction chunk final name i rule: starLoop.induct)
  case (1 chunk final name i)
  show ?case
  proof (cases "i < length name \<and> name ! i \<noteq> CHR ''/''")
    case False
    then show ?thesis by (subst starLoop.simps) auto
  next
    case True
    show ?thesis
    proof (cases "matchChunk chunk (drop (i + 1) name)")
      case (Inl e)
      with "1.prems" [of "drop (i + 1) name"] have "e \<noteq> err" by simp
      with True Inl show ?thesis by (subst starLoop.simps) auto
    next
      case (Inr found)
      show ?thesis
      proof (cases found)
        case None
        have "starLoop chunk final name (i + 1) \<noteq> Inl err"
          using True Inr None "1.prems" by (rule "1.IH"(1))
        with True Inr None show ?thesis by (subst starLoop.simps) auto
      next
        case (Some t)
        show ?thesis
        proof (cases "final \<and> length t > 0")
          case again: True
          have "starLoop chunk final name (i + 1) \<noteq> Inl err"
            using True Inr Some again "1.prems" by (rule "1.IH"(2))
          with True Inr Some again show ?thesis by (subst starLoop.simps) auto
        next
          case False
          with True Inr Some show ?thesis by (subst starLoop.simps) auto
        qed
      qed
    qed
  qed
qed

lemma matchChunk_no_error:
  "matchChunk chunk s = Inr found \<Longrightarrow> matchChunk chunk s' \<noteq> Inl err"
proof
  assume ok: "matchChunk chunk s = Inr found" and bad: "matchChunk chunk s' = Inl err"
  from bad have "matchChunk chunk s = Inl err" by (rule matchChunk_error)
  with ok show False by simp
qed

lemma Match_error_iff_checkRest:
  "Match pattern name = Inl err \<longleftrightarrow> checkRest pattern = Inl err"
proof (induction pattern name rule: Match.induct)
  case (1 pattern name)
  show ?case
  proof (cases "pattern = []")
    case True
    then show ?thesis by (simp add: Match_Nil checkRest_Nil)
  next
    case nonempty: False
    show ?thesis
    proof (cases "star_of pattern \<and> chunk_of pattern = []")
      case True
      then have rest: "rest_of pattern = []" by (simp add: chunk_of_Nil)
      have "matchChunk (chunk_of pattern) [] = Inr (Some [])"
        using True by (simp add: matchChunk_def matchChunk_loop_Nil)
      with nonempty have "checkRest pattern = checkRest (rest_of pattern)"
        by (rule checkRest_ok)
      with rest have "checkRest pattern = Inr ()" by (simp add: checkRest_Nil)
      moreover from nonempty True have "Match pattern name = Inr (CHR ''/'' \<notin> set name)"
        by (simp add: Match_trailing_star)
      ultimately show ?thesis by simp
    next
      case nostar: False
      show ?thesis
      proof (cases "matchChunk (chunk_of pattern) name")
        case (Inl e)
        with nonempty nostar have m: "Match pattern name = Inl e"
          by (rule Match_chunk_error)
        from Inl have "matchChunk (chunk_of pattern) [] = Inl e"
          by (rule matchChunk_error)
        with nonempty have "checkRest pattern = Inl e" by (rule checkRest_error)
        with m show ?thesis by simp
      next
        case (Inr found)
        have noerr: "matchChunk (chunk_of pattern) s \<noteq> Inl e" for s e
          using Inr by (rule matchChunk_no_error)
        obtain found0 where "matchChunk (chunk_of pattern) [] = Inr found0"
          using noerr [of "[]"] by (cases "matchChunk (chunk_of pattern) []") auto
        with nonempty have check: "checkRest pattern = checkRest (rest_of pattern)"
          by (rule checkRest_ok)
        show ?thesis
        proof (cases "found \<noteq> None \<and> (length (the found) = 0 \<or> length (rest_of pattern) > 0)")
          case True
          have "Match pattern name = Match (rest_of pattern) (the found)"
            using nonempty nostar Inr True by (rule Match_chunk_ok)
          moreover have "Match (rest_of pattern) (the found) = Inl err
              \<longleftrightarrow> checkRest (rest_of pattern) = Inl err"
            using nonempty nostar Inr True by (rule "1.IH"(1))
          ultimately show ?thesis using check by simp
        next
          case False
          let ?loop = "if star_of pattern
                       then starLoop (chunk_of pattern) (rest_of pattern = []) name 0
                       else Inr None"
          have "?loop \<noteq> Inl e" for e
            using starLoop_no_error [of "chunk_of pattern" e "rest_of pattern = []" name 0] noerr
            by simp
          then obtain x where loop: "?loop = Inr x"
            by (cases ?loop) auto
          show ?thesis
          proof (cases x)
            case None
            with loop have "?loop = Inr None" by simp
            with nonempty nostar Inr False
            have "Match pattern name
                = (case checkRest (rest_of pattern) of Inl err \<Rightarrow> Inl err | Inr ok \<Rightarrow> Inr False)"
              by (rule Match_no_match)
            with check show ?thesis
              by (cases "checkRest (rest_of pattern)") simp_all
          next
            case (Some t)
            with loop have l: "?loop = Inr (Some t)" by simp
            with nonempty nostar Inr False
            have "Match pattern name = Match (rest_of pattern) t"
              by (rule Match_after_star)
            moreover have "Match (rest_of pattern) t = Inl err
                \<longleftrightarrow> checkRest (rest_of pattern) = Inl err"
              using nonempty nostar Inr False loop Some by (rule "1.IH"(2))
            ultimately show ?thesis using check by simp
          qed
        qed
      qed
    qed
  qed
qed

lemma Match_error_any_name: "Match pattern name = Inl err \<Longrightarrow> Match pattern name' = Inl err"
  by (simp add: Match_error_iff_checkRest)

lemmas match_eval =
  Match.simps matchChunk_def matchChunk_loop.simps parseRanges.simps getEsc_def checkRest.simps
  starLoop.simps star_of_def chunk_of_def rest_of_def scanChunk_def noStars_def
  DecodeRune_ascii RuneError_def

section \<open>The claims about the parser\<close>

text \<open>
  Claim C1, as the specification states it: the report of four lines below parses to
  HDMI1, connected, with the single mode 1920x1080 marked default and active, and VGA1,
  disconnected, without modes. The code does not return that: the rate token of the mode
  line is \<open>60.00+*\<close>, whose last byte is \<open>*\<close> and whose byte before the last is \<open>+\<close>,
  while \<^verbatim>\<open>parseModeLine\<close> looks for \<open>+\<close> in the last place and for \<open>*\<close> before it.
\<close>

theorem C1_counterexample:
  "RandrParse ''Screen 0\<newline>HDMI1 connected 1920x1080+0+0\<newline>  1920x1080 60.00+*\<newline>VGA1 disconnected\<newline>''
     \<noteq> Returns
          [\<lparr>Output_Name = ''HDMI1'',
            Output_Modes = [\<lparr>Mode_Name = ''1920x1080'', Mode_Default = True, Mode_Active = True\<rparr>],
            Output_Connected = True\<rparr>,
           \<lparr>Output_Name = ''VGA1'', Output_Modes = [], Output_Connected = False\<rparr>]"
  by (simp add: parse_eval)

text \<open>
  Claim C1, amended: the same report parses to exactly two outputs, HDMI1 with
  \<open>Connected = true\<close> and the single mode 1920x1080 with \<open>Default = false\<close> and
  \<open>Active = false\<close>, followed by VGA1 with \<open>Connected = false\<close> and no modes.
\<close>

theorem C1_example_report:
  "RandrParse ''Screen 0\<newline>HDMI1 connected 1920x1080+0+0\<newline>  1920x1080 60.00+*\<newline>VGA1 disconnected\<newline>''
     = Returns
         [\<lparr>Output_Name = ''HDMI1'',
           Output_Modes = [\<lparr>Mode_Name = ''1920x1080'', Mode_Default = False, Mode_Active = False\<rparr>],
           Output_Connected = True\<rparr>,
          \<lparr>Output_Name = ''VGA1'', Output_Modes = [], Output_Connected = False\<rparr>]"
  by (simp add: parse_eval)

text \<open>
  With the marks in the order in which the code reads them, \<open>60.00*+\<close>, the mode is
  default and active.
\<close>

lemma example_report_star_plus:
  "RandrParse ''Screen 0\<newline>HDMI1 connected 1920x1080+0+0\<newline>  1920x1080 60.00*+\<newline>VGA1 disconnected\<newline>''
     = Returns
         [\<lparr>Output_Name = ''HDMI1'',
           Output_Modes = [\<lparr>Mode_Name = ''1920x1080'', Mode_Default = True, Mode_Active = True\<rparr>],
           Output_Connected = True\<rparr>,
          \<lparr>Output_Name = ''VGA1'', Output_Modes = [], Output_Connected = False\<rparr>]"
  by (simp add: parse_eval)

text \<open>
  Claim C3 says that \<^verbatim>\<open>parseModeLine\<close>, and with it \<^verbatim>\<open>RandrParse\<close>, always returns a value
  or an error value, also for a mode line whose second word has one byte. The code does
  not: for the line \<open>  1024x768 +\<close> the rate is \<open>+\<close>, \<^verbatim>\<open>rate[len(rate)-2]\<close> is
  \<^verbatim>\<open>rate[-1]\<close>, and the run-time system panics. A report with such a mode line stops
  \<^verbatim>\<open>RandrParse\<close> the same way.
\<close>

theorem C3_rate_of_one_byte_panics:
  "parseModeLine ''  1024x768 +'' = Panics
   \<and> RandrParse ''Screen 0\<newline>VGA1 connected\<newline>  1024x768 +\<newline>'' = Panics"
  by (simp add: parse_eval)

text \<open>The lines on which \<^verbatim>\<open>parseModeLine\<close> panics: the mode lines with a second word of
  one byte.\<close>

lemma parseModeLine_panics_iff:
  "parseModeLine line = Panics \<longleftrightarrow>
     prefix ''  '' line \<and> 2 \<le> length (ScanWords line) \<and> length (ScanWords line ! 1) < 2"
  by (auto simp: parseModeLine_def split: list.splits)

text \<open>
  Claim C9: \<^verbatim>\<open>RandrParse\<close> on the empty input returns the empty list of outputs and no
  error. The same holds for every input in which the scanner finds no line; the header
  \<open>Screen \<close> is asked for as soon as there is a first line.
\<close>

theorem C9_no_line_no_error:
  "RandrParse [] = Returns []
   \<and> (ScanLines rd = [] \<longrightarrow> RandrParse rd = Returns [])
   \<and> (ScanLines rd = line # ls \<and> \<not> prefix ''Screen '' line
        \<longrightarrow> RandrParse rd = Fails (FirstLineNotScreen line))"
  by (simp add: RandrParse_def ScanLines_Nil Output_zero_def)

theorem C9_no_line_no_error_witness:
  "RandrParse [] = Returns []
   \<and> ScanLines [] = [] \<and> RandrParse [] = Returns []
   \<and> ScanLines ''HDMI1 connected'' = [''HDMI1 connected'']
   \<and> \<not> prefix ''Screen '' ''HDMI1 connected''
   \<and> RandrParse ''HDMI1 connected'' = Fails (FirstLineNotScreen ''HDMI1 connected'')"
  using C9_no_line_no_error [of "[]" "''HDMI1 connected''" "[]"]
    C9_no_line_no_error [of "''HDMI1 connected''" "''HDMI1 connected''" "[]"]
  by (simp add: scan_eval)

section \<open>The claims about the command synthesizer\<close>

text \<open>
  Claim C2, as the specification states it: for the rule with the row LVDS1,
  VGA1@1024x768, not atomic, and the current outputs HDMI2 (connected) and LVDS1
  (disconnected, no modes), two commands are returned, the second holding both enable
  groups. The only key left in the map of line 386 is HDMI2, so the iteration order is
  \<open>[HDMI2]\<close>. The code returns three commands: after the first disable the loop of line
  417 takes one enable group for each command.
\<close>

theorem C2_counterexample:
  "rangeOrder
     (remainingDisable (Rule_zero\<lparr>Rule_ConfigureRow := [''LVDS1'', ''VGA1@1024x768''], Rule_Atomic := False\<rparr>)
        [''LVDS1'', ''VGA1@1024x768'']
        [\<lparr>Output_Name = ''HDMI2'', Output_Modes = [], Output_Connected = True\<rparr>,
         \<lparr>Output_Name = ''LVDS1'', Output_Modes = [], Output_Connected = False\<rparr>])
     [''HDMI2'']
   \<and> BuildCommandOutputRow [''HDMI2'']
       (Rule_zero\<lparr>Rule_ConfigureRow := [''LVDS1'', ''VGA1@1024x768''], Rule_Atomic := False\<rparr>)
       [\<lparr>Output_Name = ''HDMI2'', Output_Modes = [], Output_Connected = True\<rparr>,
        \<lparr>Output_Name = ''LVDS1'', Output_Modes = [], Output_Connected = False\<rparr>]
     \<noteq> Inr [Command ''xrandr'' [''--output'', ''HDMI2'', ''--off''],
            Command ''xrandr'' [''--output'', ''LVDS1'', ''--auto'',
                                ''--output'', ''VGA1'', ''--mode'', ''1024x768'', ''--right-of'', ''LVDS1'']]
   \<and> length (projr (BuildCommandOutputRow [''HDMI2'']
       (Rule_zero\<lparr>Rule_ConfigureRow := [''LVDS1'', ''VGA1@1024x768''], Rule_Atomic := False\<rparr>)
       [\<lparr>Output_Name = ''HDMI2'', Output_Modes = [], Output_Connected = True\<rparr>,
        \<lparr>Output_Name = ''LVDS1'', Output_Modes = [], Output_Connected = False\<rparr>])) = 3"
  by (simp add: build_eval)

text \<open>
  Claim C2, amended: for that rule and those outputs \<^verbatim>\<open>BuildCommandOutputRow\<close> returns
  exactly three commands: \<open>--output HDMI2 --off\<close>, then \<open>--output LVDS1 --auto\<close>, then
  \<open>--output VGA1 --mode 1024x768 --right-of LVDS1\<close>.
\<close>

theorem C2_example_three_calls:
  assumes "rangeOrder
     (remainingDisable (Rule_zero\<lparr>Rule_ConfigureRow := [''LVDS1'', ''VGA1@1024x768''], Rule_Atomic := False\<rparr>)
        [''LVDS1'', ''VGA1@1024x768'']
        [\<lparr>Output_Name = ''HDMI2'', Output_Modes = [], Output_Connected = True\<rparr>,
         \<lparr>Output_Name = ''LVDS1'', Output_Modes = [], Output_Connected = False\<rparr>]) ks"
  shows "BuildCommandOutputRow ks
       (Rule_zero\<lparr>Rule_ConfigureRow := [''LVDS1'', ''VGA1@1024x768''], Rule_Atomic := False\<rparr>)
       [\<lparr>Output_Name = ''HDMI2'', Output_Modes = [], Output_Connected = True\<rparr>,
        \<lparr>Output_Name = ''LVDS1'', Output_Modes = [], Output_Connected = False\<rparr>]
     = Inr [Command ''xrandr'' [''--output'', ''HDMI2'', ''--off''],
            Command ''xrandr'' [''--output'', ''LVDS1'', ''--auto''],
            Command ''xrandr'' [''--output'', ''VGA1'', ''--mode'', ''1024x768'', ''--right-of'', ''LVDS1'']]"
proof -
  from assms have "distinct ks" and "set ks = {''HDMI2''}"
    by (simp_all add: build_eval)
  then have "ks = [''HDMI2'']"
    by (cases ks) (auto simp: subset_singleton_iff)
  then show ?thesis by (simp add: build_eval)
qed

theorem C2_example_three_calls_witness:
  "rangeOrder
     (remainingDisable (Rule_zero\<lparr>Rule_ConfigureRow := [''LVDS1'', ''VGA1@1024x768''], Rule_Atomic := False\<rparr>)
        [''LVDS1'', ''VGA1@1024x768'']
        [\<lparr>Output_Name = ''HDMI2'', Output_Modes = [], Output_Connected = True\<rparr>,
         \<lparr>Output_Name = ''LVDS1'', Output_Modes = [], Output_Connected = False\<rparr>]) [''HDMI2'']
   \<and> BuildCommandOutputRow [''HDMI2'']
       (Rule_zero\<lparr>Rule_ConfigureRow := [''LVDS1'', ''VGA1@1024x768''], Rule_Atomic := False\<rparr>)
       [\<lparr>Output_Name = ''HDMI2'', Output_Modes = [], Output_Connected = True\<rparr>,
        \<lparr>Output_Name = ''LVDS1'', Output_Modes = [], Output_Connected = False\<rparr>]
     = Inr [Command ''xrandr'' [''--output'', ''HDMI2'', ''--off''],
            Command ''xrandr'' [''--output'', ''LVDS1'', ''--auto''],
            Command ''xrandr'' [''--output'', ''VGA1'', ''--mode'', ''1024x768'', ''--right-of'', ''LVDS1'']]"
proof -
  have h: "rangeOrder
     (remainingDisable (Rule_zero\<lparr>Rule_ConfigureRow := [''LVDS1'', ''VGA1@1024x768''], Rule_Atomic := False\<rparr>)
        [''LVDS1'', ''VGA1@1024x768'']
        [\<lparr>Output_Name = ''HDMI2'', Output_Modes = [], Output_Connected = True\<rparr>,
         \<lparr>Output_Name = ''LVDS1'', Output_Modes = [], Output_Connected = False\<rparr>]) [''HDMI2'']"
    by (simp add: build_eval)
  from h C2_example_three_calls [OF h] show ?thesis by (rule conjI)
qed

text \<open>
  Claim C4: a rule that is not atomic and yields \<open>d\<close> disable groups and \<open>e\<close> enable
  groups gives \<open>1 + max (d - 1) e\<close> commands when \<open>d > 0\<close> and \<open>e\<close> commands when
  \<open>d = 0\<close>; when \<open>d > 0\<close> the first command is one disable group, the first, alone.
  There is one enable group for each output to configure.
\<close>

theorem C4_number_of_calls:
  assumes "resolveOutputs rule = Inr outputs" and "\<not> Rule_Atomic rule"
    and "length (disableOutputArgs ks rule outputs current) = d"
    and "length (enableOutputArgs outputs) = e"
  shows "\<exists>cmds. BuildCommandOutputRow ks rule current = Inr cmds
     \<and> length cmds = (if d > 0 then 1 + max (d - 1) e else e)
     \<and> (d > 0 \<longrightarrow>
          cmds ! 0 = Command ''xrandr'' (disableOutputArgs ks rule outputs current ! 0)
          \<and> disableGroup (disableOutputArgs ks rule outputs current ! 0))
     \<and> e = length outputs"
proof -
  let ?d = "disableOutputArgs ks rule outputs current"
  let ?e = "enableOutputArgs outputs"
  have res: "BuildCommandOutputRow ks rule current = Inr (severalCalls ?d ?e)"
    using assms(1,2) by (simp add: BuildCommandOutputRow_def)
  have len: "length (severalCalls ?d ?e) = (if d > 0 then 1 + max (d - 1) e else e)"
    using assms(3,4) by (auto simp: severalCalls_def splitCalls_length)
  have first: "severalCalls ?d ?e ! 0 = Command ''xrandr'' (?d ! 0)" if "d > 0"
    using that assms(3) by (auto simp: severalCalls_def splitCalls_first)
  have off: "disableGroup (?d ! 0)" if "d > 0"
  proof -
    from that assms(3) have "0 < length ?d" by simp
    with disableOutputArgs_shape [of ks rule outputs current] show ?thesis
      by (simp only: list_all_length)
  qed
  have "e = length outputs"
    using assms(4) by (simp add: enableOutputArgs_length)
  with res len first off show ?thesis by auto
qed

theorem C4_number_of_calls_witness:
  "resolveOutputs (Rule_zero\<lparr>Rule_ConfigureRow := [''LVDS1'', ''VGA1@1024x768'']\<rparr>)
     = Inr [''LVDS1'', ''VGA1@1024x768'']
   \<and> \<not> Rule_Atomic (Rule_zero\<lparr>Rule_ConfigureRow := [''LVDS1'', ''VGA1@1024x768'']\<rparr>)
   \<and> length (disableOutputArgs [''HDMI2'']
        (Rule_zero\<lparr>Rule_ConfigureRow := [''LVDS1'', ''VGA1@1024x768'']\<rparr>)
        [''LVDS1'', ''VGA1@1024x768'']
        [\<lparr>Output_Name = ''HDMI2'', Output_Modes = [], Output_Connected = True\<rparr>,
         \<lparr>Output_Name = ''LVDS1'', Output_Modes = [], Output_Connected = False\<rparr>]) = 1
   \<and> length (enableOutputArgs [''LVDS1'', ''VGA1@1024x768'']) = 2
   \<and> (\<exists>cmds. BuildCommandOutputRow [''HDMI2'']
          (Rule_zero\<lparr>Rule_ConfigureRow := [''LVDS1'', ''VGA1@1024x768'']\<rparr>)
          [\<lparr>Output_Name = ''HDMI2'', Output_Modes = [], Output_Connected = True\<rparr>,
           \<lparr>Output_Name = ''LVDS1'', Output_Modes = [], Output_Connected = False\<rparr>] = Inr cmds
        \<and> length cmds = 3
        \<and> cmds ! 0 = Command ''xrandr'' [''--output'', ''HDMI2'', ''--off''])"
proof -
  let ?rule = "Rule_zero\<lparr>Rule_ConfigureRow := [''LVDS1'', ''VGA1@1024x768'']\<rparr>"
  let ?current = "[\<lparr>Output_Name = ''HDMI2'', Output_Modes = [], Output_Connected = True\<rparr>,
         \<lparr>Output_Name = ''LVDS1'', Output_Modes = [], Output_Connected = False\<rparr>]"
  have h1: "resolveOutputs ?rule = Inr [''LVDS1'', ''VGA1@1024x768'']"
    by (simp add: build_eval)
  have h2: "\<not> Rule_Atomic ?rule"
    by (simp add: Rule_zero_def)
  have dargs: "disableOutputArgs [''HDMI2''] ?rule [''LVDS1'', ''VGA1@1024x768''] ?current
      = [[''--output'', ''HDMI2'', ''--off'']]"
    by (simp add: build_eval)
  have h3: "length (disableOutputArgs [''HDMI2''] ?rule [''LVDS1'', ''VGA1@1024x768''] ?current) = 1"
    by (simp add: dargs)
  have h4: "length (enableOutputArgs [''LVDS1'', ''VGA1@1024x768'']) = 2"
    by (simp add: build_eval)
  from C4_number_of_calls [OF h1 h2 h3 h4]
  have "\<exists>cmds. BuildCommandOutputRow [''HDMI2''] ?rule ?current = Inr cmds
        \<and> length cmds = 3
        \<and> cmds ! 0 = Command ''xrandr'' [''--output'', ''HDMI2'', ''--off'']"
    by (auto simp: dargs numeral_3_eq_3)
  with h1 h2 h3 h4 show ?thesis by simp
qed

text \<open>
  Claim C5, as the specification states it: every atomic rule gives exactly one command.
  The atomic rule that names no output to configure gives none: the \<^verbatim>\<open>switch\<close> of line
  319 returns the error of line 325 before \<^verbatim>\<open>rule.Atomic\<close> is read.
\<close>

theorem C5_counterexample:
  "Rule_Atomic (Rule_zero\<lparr>Rule_Atomic := True\<rparr>)
   \<and> BuildCommandOutputRow [] (Rule_zero\<lparr>Rule_Atomic := True\<rparr>) [] = Inl EmptyRowConfiguration"
  by (simp add: build_eval)

text \<open>
  Claim C5, amended: for every atomic rule that names an output to configure
  (\<^verbatim>\<open>ConfigureSingle\<close> or \<^verbatim>\<open>ConfigureRow\<close> is not empty) and every list of current outputs,
  \<^verbatim>\<open>BuildCommandOutputRow\<close> returns exactly one command, whose arguments are all the
  disable groups followed by all the enable groups.
\<close>

theorem C5_atomic_one_call:
  assumes "resolveOutputs rule = Inr outputs" and "Rule_Atomic rule"
  shows "BuildCommandOutputRow ks rule current
           = Inr [Command ''xrandr''
                    (concat (disableOutputArgs ks rule outputs current)
                     @ concat (enableOutputArgs outputs))]
         \<and> list_all disableGroup (disableOutputArgs ks rule outputs current)
         \<and> list_all enableGroup (enableOutputArgs outputs)"
  using assms
  by (simp add: BuildCommandOutputRow_def disableOutputArgs_shape enableOutputArgs_shape)

theorem C5_atomic_one_call_witness:
  "resolveOutputs (Rule_zero\<lparr>Rule_ConfigureRow := [''HDMI2'', ''HDMI3''], Rule_Atomic := True\<rparr>)
     = Inr [''HDMI2'', ''HDMI3'']
   \<and> Rule_Atomic (Rule_zero\<lparr>Rule_ConfigureRow := [''HDMI2'', ''HDMI3''], Rule_Atomic := True\<rparr>)
   \<and> BuildCommandOutputRow [''LVDS1'']
        (Rule_zero\<lparr>Rule_ConfigureRow := [''HDMI2'', ''HDMI3''], Rule_Atomic := True\<rparr>)
        [\<lparr>Output_Name = ''LVDS1'', Output_Modes = [], Output_Connected = True\<rparr>,
         \<lparr>Output_Name = ''HDMI2'', Output_Modes = [], Output_Connected = True\<rparr>]
      = Inr [Command ''xrandr''
               [''--output'', ''LVDS1'', ''--off'',
                ''--output'', ''HDMI2'', ''--auto'',
                ''--output'', ''HDMI3'', ''--auto'', ''--right-of'', ''HDMI2'']]"
proof -
  have h1: "resolveOutputs (Rule_zero\<lparr>Rule_ConfigureRow := [''HDMI2'', ''HDMI3''], Rule_Atomic := True\<rparr>)
     = Inr [''HDMI2'', ''HDMI3'']"
    by (simp add: build_eval)
  have h2: "Rule_Atomic (Rule_zero\<lparr>Rule_ConfigureRow := [''HDMI2'', ''HDMI3''], Rule_Atomic := True\<rparr>)"
    by simp
  have "BuildCommandOutputRow [''LVDS1'']
        (Rule_zero\<lparr>Rule_ConfigureRow := [''HDMI2'', ''HDMI3''], Rule_Atomic := True\<rparr>)
        [\<lparr>Output_Name = ''LVDS1'', Output_Modes = [], Output_Connected = True\<rparr>,
         \<lparr>Output_Name = ''HDMI2'', Output_Modes = [], Output_Connected = True\<rparr>]
      = Inr [Command ''xrandr''
         (concat (disableOutputArgs [''LVDS1'']
            (Rule_zero\<lparr>Rule_ConfigureRow := [''HDMI2'', ''HDMI3''], Rule_Atomic := True\<rparr>)
            [''HDMI2'', ''HDMI3'']
            [\<lparr>Output_Name = ''LVDS1'', Output_Modes = [], Output_Connected = True\<rparr>,
             \<lparr>Output_Name = ''HDMI2'', Output_Modes = [], Output_Connected = True\<rparr>])
          @ concat (enableOutputArgs [''HDMI2'', ''HDMI3'']))]"
    using C5_atomic_one_call [OF h1 h2] by (rule conjunct1)
  also have "\<dots> = Inr [Command ''xrandr''
               [''--output'', ''LVDS1'', ''--off'',
                ''--output'', ''HDMI2'', ''--auto'',
                ''--output'', ''HDMI3'', ''--auto'', ''--right-of'', ''HDMI2'']]"
    by (simp add: build_eval)
  finally show ?thesis using h1 h2 by simp
qed

text \<open>
  Claim C6, as the specification states it: an output gets a disable group exactly when
  it is no target of the rule and is connected, or disconnected with an active mode. The
  code asks whether a disconnected output has any mode (line 363), active or not: VGA1
  below, as \<^verbatim>\<open>RandrParse\<close> reads it from a report, is disconnected, its one mode is not
  active, and it is switched off.
\<close>

theorem C6_counterexample:
  "RandrParse ''Screen 0\<newline>VGA1 disconnected (normal left inverted right)\<newline>  1024x768 60.00\<newline>''
     = Returns [\<lparr>Output_Name = ''VGA1'',
                 Output_Modes = [\<lparr>Mode_Name = ''1024x768'', Mode_Default = False, Mode_Active = False\<rparr>],
                 Output_Connected = False\<rparr>]
   \<and> rangeOrder
     (remainingDisable (Rule_zero\<lparr>Rule_ConfigureSingle := ''LVDS1''\<rparr>) [''LVDS1'']
        [\<lparr>Output_Name = ''VGA1'',
          Output_Modes = [\<lparr>Mode_Name = ''1024x768'', Mode_Default = False, Mode_Active = False\<rparr>],
          Output_Connected = False\<rparr>])
     [''VGA1'']
   \<and> BuildCommandOutputRow [''VGA1'']
        (Rule_zero\<lparr>Rule_ConfigureSingle := ''LVDS1''\<rparr>)
        [\<lparr>Output_Name = ''VGA1'',
          Output_Modes = [\<lparr>Mode_Name = ''1024x768'', Mode_Default = False, Mode_Active = False\<rparr>],
          Output_Connected = False\<rparr>]
      = Inr [Command ''xrandr'' [''--output'', ''VGA1'', ''--off''],
             Command ''xrandr'' [''--output'', ''LVDS1'', ''--auto'']]"
  by (simp add: parse_eval build_eval)

text \<open>
  Claim C6, amended: for every rule that names the outputs to configure and every list
  of current outputs, an output of the list gets a disable group
  \<open>--output name --off\<close> in the commands that \<^verbatim>\<open>BuildCommandOutputRow\<close> returns if and
  only if its name is no target of the rule and an output of that name in the list (the
  output itself when the names of the list are distinct) is connected or has at least
  one mode, active or not. The commands hold no disable group of another name, and
  after their disable groups they hold the enable groups only. The targets are the
  names before the \<open>@\<close> of the entries to configure.
\<close>

theorem C6_disable_set:
  assumes "resolveOutputs rule = Inr outputs"
    and "rangeOrder (remainingDisable rule outputs current) ks"
  shows "\<exists>cmds. BuildCommandOutputRow ks rule current = Inr cmds
           \<and> enableArgsOf cmds = concat (enableOutputArgs outputs)
           \<and> (\<forall>out \<in> set current.
                 offArgs (Output_Name out) \<in> set (disableGroupsOf cmds)
                 \<longleftrightarrow> Output_Name out \<notin> active outputs
                     \<and> (\<exists>other \<in> set current. Output_Name other = Output_Name out
                           \<and> (Output_Connected other \<or> Output_Modes other \<noteq> [])))
           \<and> (distinct (map Output_Name current) \<longrightarrow>
                (\<forall>out \<in> set current.
                   offArgs (Output_Name out) \<in> set (disableGroupsOf cmds)
                   \<longleftrightarrow> Output_Name out \<notin> active outputs
                       \<and> (Output_Connected out \<or> Output_Modes out \<noteq> [])))
           \<and> (\<forall>group \<in> set (disableGroupsOf cmds).
                 \<exists>out \<in> set current. group = offArgs (Output_Name out))
           \<and> active outputs = (\<lambda>output. SplitN2 (CHR ''@'') output ! 0) ` set outputs"
proof -
  from BuildCommandOutputRow_groups [OF assms(1), of ks current]
  obtain cmds where res: "BuildCommandOutputRow ks rule current = Inr cmds"
    and dis: "disableGroupsOf cmds = disableOutputArgs ks rule outputs current"
    and en: "enableArgsOf cmds = concat (enableOutputArgs outputs)"
    by blast
  have mem: "offArgs n \<in> set (disableGroupsOf cmds) \<longleftrightarrow> n \<in> disableOutputs outputs current"
    for n
    unfolding dis using assms(2) by (rule offArgs_in_disableOutputArgs)
  have general: "\<forall>out \<in> set current.
            offArgs (Output_Name out) \<in> set (disableGroupsOf cmds)
            \<longleftrightarrow> Output_Name out \<notin> active outputs
                \<and> (\<exists>other \<in> set current. Output_Name other = Output_Name out
                      \<and> (Output_Connected other \<or> Output_Modes other \<noteq> []))"
    unfolding mem by (simp add: mem_disableOutputs)
  have same: "other = out"
    if "distinct (map Output_Name current)" "out \<in> set current" "other \<in> set current"
      "Output_Name other = Output_Name out" for out other
    using that by (auto simp: distinct_map dest: inj_onD)
  have unique: "\<forall>out \<in> set current.
                 offArgs (Output_Name out) \<in> set (disableGroupsOf cmds)
                 \<longleftrightarrow> Output_Name out \<notin> active outputs
                     \<and> (Output_Connected out \<or> Output_Modes out \<noteq> [])"
    if "distinct (map Output_Name current)"
    using general same [OF that] by blast
  have ks: "set ks = disableOutputs outputs current - set (Rule_DisableOrder rule)"
    using assms(2) by (simp add: rangeOrder_def remainingDisable_eq)
  have "\<exists>n \<in> disableOutputs outputs current. group = offArgs n"
    if "group \<in> set (disableGroupsOf cmds)" for group
    using that ks unfolding dis by (auto simp: disableOutputArgs_eq)
  then have only: "\<forall>group \<in> set (disableGroupsOf cmds).
                 \<exists>out \<in> set current. group = offArgs (Output_Name out)"
    unfolding disableOutputs_eq by blast
  have act: "active outputs = (\<lambda>output. SplitN2 (CHR ''@'') output ! 0) ` set outputs"
    by (simp add: active_def enableOutputs_active)
  from unique have unique': "distinct (map Output_Name current) \<longrightarrow>
                (\<forall>out \<in> set current.
                   offArgs (Output_Name out) \<in> set (disableGroupsOf cmds)
                   \<longleftrightarrow> Output_Name out \<notin> active outputs
                       \<and> (Output_Connected out \<or> Output_Modes out \<noteq> []))"
    by (rule impI)
  from res en general unique' only act show ?thesis
    by - (rule exI [of _ cmds], intro conjI; assumption)
qed

theorem C6_disable_set_witness:
  "resolveOutputs (Rule_zero\<lparr>Rule_ConfigureSingle := ''LVDS1''\<rparr>) = Inr [''LVDS1'']
   \<and> rangeOrder
       (remainingDisable (Rule_zero\<lparr>Rule_ConfigureSingle := ''LVDS1''\<rparr>) [''LVDS1'']
          [\<lparr>Output_Name = ''LVDS1'', Output_Modes = [], Output_Connected = True\<rparr>,
           \<lparr>Output_Name = ''HDMI2'', Output_Modes = [], Output_Connected = True\<rparr>,
           \<lparr>Output_Name = ''VGA1'', Output_Modes = [], Output_Connected = False\<rparr>,
           \<lparr>Output_Name = ''DP1'',
            Output_Modes = [\<lparr>Mode_Name = ''1024x768'', Mode_Default = False, Mode_Active = False\<rparr>],
            Output_Connected = False\<rparr>])
       [''DP1'', ''HDMI2'']
   \<and> BuildCommandOutputRow [''DP1'', ''HDMI2'']
         (Rule_zero\<lparr>Rule_ConfigureSingle := ''LVDS1''\<rparr>)
         [\<lparr>Output_Name = ''LVDS1'', Output_Modes = [], Output_Connected = True\<rparr>,
          \<lparr>Output_Name = ''HDMI2'', Output_Modes = [], Output_Connected = True\<rparr>,
          \<lparr>Output_Name = ''VGA1'', Output_Modes = [], Output_Connected = False\<rparr>,
          \<lparr>Output_Name = ''DP1'',
           Output_Modes = [\<lparr>Mode_Name = ''1024x768'', Mode_Default = False, Mode_Active = False\<rparr>],
           Output_Connected = False\<rparr>]
       = Inr [Command ''xrandr'' [''--output'', ''DP1'', ''--off''],
              Command ''xrandr'' [''--output'', ''HDMI2'', ''--off'',
                                  ''--output'', ''LVDS1'', ''--auto'']]
   \<and> offArgs ''HDMI2''
       \<in> set (disableGroupsOf
                 [Command ''xrandr'' [''--output'', ''DP1'', ''--off''],
                  Command ''xrandr'' [''--output'', ''HDMI2'', ''--off'',
                                      ''--output'', ''LVDS1'', ''--auto'']])
   \<and> offArgs ''DP1''
       \<in> set (disableGroupsOf
                 [Command ''xrandr'' [''--output'', ''DP1'', ''--off''],
                  Command ''xrandr'' [''--output'', ''HDMI2'', ''--off'',
                                      ''--output'', ''LVDS1'', ''--auto'']])
   \<and> offArgs ''LVDS1''
       \<notin> set (disableGroupsOf
                 [Command ''xrandr'' [''--output'', ''DP1'', ''--off''],
                  Command ''xrandr'' [''--output'', ''HDMI2'', ''--off'',
                                      ''--output'', ''LVDS1'', ''--auto'']])
   \<and> offArgs ''VGA1''
       \<notin> set (disableGroupsOf
                 [Command ''xrandr'' [''--output'', ''DP1'', ''--off''],
                  Command ''xrandr'' [''--output'', ''HDMI2'', ''--off'',
                                      ''--output'', ''LVDS1'', ''--auto'']])"
proof -
  let ?rule = "Rule_zero\<lparr>Rule_ConfigureSingle := ''LVDS1''\<rparr>"
  let ?current = "[\<lparr>Output_Name = ''LVDS1'', Output_Modes = [], Output_Connected = True\<rparr>,
          \<lparr>Output_Name = ''HDMI2'', Output_Modes = [], Output_Connected = True\<rparr>,
          \<lparr>Output_Name = ''VGA1'', Output_Modes = [], Output_Connected = False\<rparr>,
          \<lparr>Output_Name = ''DP1'',
           Output_Modes = [\<lparr>Mode_Name = ''1024x768'', Mode_Default = False, Mode_Active = False\<rparr>],
           Output_Connected = False\<rparr>]"
  let ?cmds = "[Command ''xrandr'' [''--output'', ''DP1'', ''--off''],
              Command ''xrandr'' [''--output'', ''HDMI2'', ''--off'',
                                  ''--output'', ''LVDS1'', ''--auto'']]"
  have h1: "resolveOutputs ?rule = Inr [''LVDS1'']"
    by (simp add: build_eval)
  have h2: "rangeOrder (remainingDisable ?rule [''LVDS1''] ?current) [''DP1'', ''HDMI2'']"
    by (simp add: build_eval)
  have run: "BuildCommandOutputRow [''DP1'', ''HDMI2''] ?rule ?current = Inr ?cmds"
    by (simp add: build_eval)
  have act: "active [''LVDS1''] = {''LVDS1''}"
    by (simp add: build_eval)
  from C6_disable_set [OF h1 h2] run
  have "\<forall>out \<in> set ?current.
            offArgs (Output_Name out) \<in> set (disableGroupsOf ?cmds)
            \<longleftrightarrow> Output_Name out \<notin> active [''LVDS1'']
                \<and> (\<exists>other \<in> set ?current. Output_Name other = Output_Name out
                      \<and> (Output_Connected other \<or> Output_Modes other \<noteq> []))"
    by (simp only: sum.inject) blast
  then have "offArgs ''HDMI2'' \<in> set (disableGroupsOf ?cmds)
     \<and> offArgs ''DP1'' \<in> set (disableGroupsOf ?cmds)
     \<and> offArgs ''LVDS1'' \<notin> set (disableGroupsOf ?cmds)
     \<and> offArgs ''VGA1'' \<notin> set (disableGroupsOf ?cmds)"
    by (simp add: act)
  with h1 h2 run show ?thesis by (intro conjI) simp_all
qed

text \<open>
  Claim C7: the disable groups in the commands that \<^verbatim>\<open>BuildCommandOutputRow\<close> returns
  start with the outputs of \<^verbatim>\<open>DisableOrder\<close> that are in the disable set, in the order of
  \<^verbatim>\<open>DisableOrder\<close> (an output listed twice stands where it is listed first:
  \<open>rev (remdups (rev xs))\<close> keeps the first of equal elements); the groups of the outputs
  that \<^verbatim>\<open>DisableOrder\<close> does not list follow, and together they are the disable set.
\<close>

theorem C7_disable_order_first:
  assumes "resolveOutputs rule = Inr outputs"
    and "rangeOrder (remainingDisable rule outputs current) ks"
  shows "\<exists>cmds. BuildCommandOutputRow ks rule current = Inr cmds
           \<and> disableGroupsOf cmds
               = map offArgs
                   (rev (remdups (rev (filter (\<lambda>name. name \<in> disableOutputs outputs current)
                                         (Rule_DisableOrder rule)))))
                 @ map offArgs ks
           \<and> enableArgsOf cmds = concat (enableOutputArgs outputs)
           \<and> set ks \<inter> set (Rule_DisableOrder rule) = {}
           \<and> set ks \<union> set (filter (\<lambda>name. name \<in> disableOutputs outputs current)
                                (Rule_DisableOrder rule))
               = disableOutputs outputs current
           \<and> (distinct (Rule_DisableOrder rule) \<longrightarrow>
                 rev (remdups (rev (filter (\<lambda>name. name \<in> disableOutputs outputs current)
                                      (Rule_DisableOrder rule))))
                 = filter (\<lambda>name. name \<in> disableOutputs outputs current)
                     (Rule_DisableOrder rule))"
proof -
  from BuildCommandOutputRow_groups [OF assms(1), of ks current]
  obtain cmds where res: "BuildCommandOutputRow ks rule current = Inr cmds"
    and dis: "disableGroupsOf cmds = disableOutputArgs ks rule outputs current"
    and en: "enableArgsOf cmds = concat (enableOutputArgs outputs)"
    by blast
  from assms(2) have ks: "set ks = disableOutputs outputs current - set (Rule_DisableOrder rule)"
    by (simp add: rangeOrder_def remainingDisable_eq)
  have d: "rev (remdups (rev xs)) = xs" if "distinct xs" for xs :: "string list"
    using that by (simp add: distinct_remdups_id)
  from ks have disjoint: "set ks \<inter> set (Rule_DisableOrder rule) = {}" by auto
  from ks have all: "set ks \<union> set (filter (\<lambda>name. name \<in> disableOutputs outputs current)
                              (Rule_DisableOrder rule)) = disableOutputs outputs current"
    by auto
  have order: "disableGroupsOf cmds
               = map offArgs
                   (rev (remdups (rev (filter (\<lambda>name. name \<in> disableOutputs outputs current)
                                         (Rule_DisableOrder rule)))))
                 @ map offArgs ks"
    unfolding dis by (rule disableOutputArgs_eq)
  have d': "distinct (Rule_DisableOrder rule) \<longrightarrow>
                 rev (remdups (rev (filter (\<lambda>name. name \<in> disableOutputs outputs current)
                                      (Rule_DisableOrder rule))))
                 = filter (\<lambda>name. name \<in> disableOutputs outputs current)
                     (Rule_DisableOrder rule)"
    by (simp add: d)
  from res order en disjoint all d' show ?thesis
    by - (rule exI [of _ cmds], intro conjI; assumption)
qed

theorem C7_disable_order_first_witness:
  "resolveOutputs (Rule_zero\<lparr>Rule_ConfigureSingle := ''LVDS1'',
                              Rule_DisableOrder := [''VGA1'', ''DP1'', ''HDMI1'', ''VGA1'']\<rparr>)
     = Inr [''LVDS1'']
   \<and> rangeOrder
       (remainingDisable (Rule_zero\<lparr>Rule_ConfigureSingle := ''LVDS1'',
                              Rule_DisableOrder := [''VGA1'', ''DP1'', ''HDMI1'', ''VGA1'']\<rparr>)
          [''LVDS1'']
          [\<lparr>Output_Name = ''HDMI1'', Output_Modes = [], Output_Connected = True\<rparr>,
           \<lparr>Output_Name = ''HDMI2'', Output_Modes = [], Output_Connected = True\<rparr>,
           \<lparr>Output_Name = ''VGA1'', Output_Modes = [], Output_Connected = True\<rparr>,
           \<lparr>Output_Name = ''LVDS1'', Output_Modes = [], Output_Connected = True\<rparr>])
       [''HDMI2'']
   \<and> BuildCommandOutputRow [''HDMI2'']
         (Rule_zero\<lparr>Rule_ConfigureSingle := ''LVDS1'',
                     Rule_DisableOrder := [''VGA1'', ''DP1'', ''HDMI1'', ''VGA1'']\<rparr>)
         [\<lparr>Output_Name = ''HDMI1'', Output_Modes = [], Output_Connected = True\<rparr>,
          \<lparr>Output_Name = ''HDMI2'', Output_Modes = [], Output_Connected = True\<rparr>,
          \<lparr>Output_Name = ''VGA1'', Output_Modes = [], Output_Connected = True\<rparr>,
          \<lparr>Output_Name = ''LVDS1'', Output_Modes = [], Output_Connected = True\<rparr>]
       = Inr [Command ''xrandr'' [''--output'', ''VGA1'', ''--off''],
              Command ''xrandr'' [''--output'', ''HDMI1'', ''--off'',
                                  ''--output'', ''LVDS1'', ''--auto''],
              Command ''xrandr'' [''--output'', ''HDMI2'', ''--off'']]
   \<and> disableGroupsOf
         [Command ''xrandr'' [''--output'', ''VGA1'', ''--off''],
          Command ''xrandr'' [''--output'', ''HDMI1'', ''--off'',
                              ''--output'', ''LVDS1'', ''--auto''],
          Command ''xrandr'' [''--output'', ''HDMI2'', ''--off'']]
       = [[''--output'', ''VGA1'', ''--off''], [''--output'', ''HDMI1'', ''--off''],
          [''--output'', ''HDMI2'', ''--off'']]"
proof -
  let ?rule = "Rule_zero\<lparr>Rule_ConfigureSingle := ''LVDS1'',
                         Rule_DisableOrder := [''VGA1'', ''DP1'', ''HDMI1'', ''VGA1'']\<rparr>"
  let ?current = "[\<lparr>Output_Name = ''HDMI1'', Output_Modes = [], Output_Connected = True\<rparr>,
          \<lparr>Output_Name = ''HDMI2'', Output_Modes = [], Output_Connected = True\<rparr>,
          \<lparr>Output_Name = ''VGA1'', Output_Modes = [], Output_Connected = True\<rparr>,
          \<lparr>Output_Name = ''LVDS1'', Output_Modes = [], Output_Connected = True\<rparr>]"
  let ?cmds = "[Command ''xrandr'' [''--output'', ''VGA1'', ''--off''],
              Command ''xrandr'' [''--output'', ''HDMI1'', ''--off'',
                                  ''--output'', ''LVDS1'', ''--auto''],
              Command ''xrandr'' [''--output'', ''HDMI2'', ''--off'']]"
  have h1: "resolveOutputs ?rule = Inr [''LVDS1'']"
    by (simp add: build_eval)
  have h2: "rangeOrder (remainingDisable ?rule [''LVDS1''] ?current) [''HDMI2'']"
    by (simp add: build_eval) auto
  have D: "disableOutputs [''LVDS1''] ?current = {''HDMI1'', ''HDMI2'', ''VGA1''}"
    by (simp add: build_eval) auto
  have run: "BuildCommandOutputRow [''HDMI2''] ?rule ?current = Inr ?cmds"
    by (simp add: build_eval)
  from C7_disable_order_first [OF h1 h2] run
  have "disableGroupsOf ?cmds
           = map offArgs
               (rev (remdups (rev (filter (\<lambda>name. name \<in> disableOutputs [''LVDS1''] ?current)
                                     (Rule_DisableOrder ?rule)))))
             @ map offArgs [''HDMI2'']"
    by (simp only: sum.inject) blast
  then have "disableGroupsOf ?cmds
       = [[''--output'', ''VGA1'', ''--off''], [''--output'', ''HDMI1'', ''--off''],
          [''--output'', ''HDMI2'', ''--off'']]"
    by (simp add: D offArgs_def)
  with h1 h2 run show ?thesis by (intro conjI) simp_all
qed

text \<open>
  Claim C10: a rule with \<^verbatim>\<open>ConfigureSingle\<close> set does not fail, whatever \<^verbatim>\<open>ConfigureRow\<close>
  holds: the outputs to configure are the one entry of \<^verbatim>\<open>ConfigureSingle\<close>, and the result
  is the same for every value \<open>row\<close> of \<^verbatim>\<open>ConfigureRow\<close>.
\<close>

theorem C10_single_takes_precedence:
  assumes "Rule_ConfigureSingle rule \<noteq> []"
  shows "resolveOutputs rule = Inr [Rule_ConfigureSingle rule]
         \<and> (\<exists>cmds. BuildCommandOutputRow ks rule current = Inr cmds)
         \<and> BuildCommandOutputRow ks (rule\<lparr>Rule_ConfigureRow := row\<rparr>) current
             = BuildCommandOutputRow ks rule current"
  using assms
  by (simp add: BuildCommandOutputRow_def resolveOutputs_def disableOutputArgs_def)

theorem C10_single_takes_precedence_witness:
  "Rule_ConfigureSingle (Rule_zero\<lparr>Rule_ConfigureSingle := ''LVDS1'',
                                    Rule_ConfigureRow := [''HDMI2'', ''HDMI3'']\<rparr>) \<noteq> []
   \<and> Rule_ConfigureRow (Rule_zero\<lparr>Rule_ConfigureSingle := ''LVDS1'',
                                    Rule_ConfigureRow := [''HDMI2'', ''HDMI3'']\<rparr>) \<noteq> []
   \<and> resolveOutputs (Rule_zero\<lparr>Rule_ConfigureSingle := ''LVDS1'',
                                Rule_ConfigureRow := [''HDMI2'', ''HDMI3'']\<rparr>) = Inr [''LVDS1'']
   \<and> BuildCommandOutputRow [''HDMI2'']
        (Rule_zero\<lparr>Rule_ConfigureSingle := ''LVDS1'', Rule_ConfigureRow := [''HDMI2'', ''HDMI3'']\<rparr>)
        [\<lparr>Output_Name = ''HDMI2'', Output_Modes = [], Output_Connected = True\<rparr>]
      = BuildCommandOutputRow [''HDMI2'']
          (Rule_zero\<lparr>Rule_ConfigureSingle := ''LVDS1''\<rparr>)
          [\<lparr>Output_Name = ''HDMI2'', Output_Modes = [], Output_Connected = True\<rparr>]
   \<and> BuildCommandOutputRow [''HDMI2'']
        (Rule_zero\<lparr>Rule_ConfigureSingle := ''LVDS1'', Rule_ConfigureRow := [''HDMI2'', ''HDMI3'']\<rparr>)
        [\<lparr>Output_Name = ''HDMI2'', Output_Modes = [], Output_Connected = True\<rparr>]
      = Inr [Command ''xrandr'' [''--output'', ''HDMI2'', ''--off''],
             Command ''xrandr'' [''--output'', ''LVDS1'', ''--auto'']]"
proof -
  have h: "Rule_ConfigureSingle (Rule_zero\<lparr>Rule_ConfigureSingle := ''LVDS1''\<rparr>) \<noteq> []"
    by simp
  show ?thesis
    using C10_single_takes_precedence [OF h, of "[''HDMI2'']"
      "[\<lparr>Output_Name = ''HDMI2'', Output_Modes = [], Output_Connected = True\<rparr>]"
      "[''HDMI2'', ''HDMI3'']"]
    by (simp add: build_eval)
qed

section \<open>The claim about the queries\<close>

text \<open>The example of the specification: \<open>DP2-?\<close> matches DP2-2 and not DP2-20.\<close>

lemma Present_example:
  "Present [\<lparr>Output_Name = ''DP2-2'', Output_Modes = [], Output_Connected = False\<rparr>] ''DP2-?''
   \<and> \<not> Present [\<lparr>Output_Name = ''DP2-20'', Output_Modes = [], Output_Connected = False\<rparr>] ''DP2-?''"
  by (simp add: match_eval)

text \<open>
  Claim C8: for every list of outputs and every malformed pattern, \<^verbatim>\<open>Present\<close> and
  \<^verbatim>\<open>Connected\<close> return false; both return a boolean only, so the error of the pattern does
  not reach the caller. A pattern is malformed when \<^verbatim>\<open>path.Match\<close> answers
  \<^verbatim>\<open>ErrBadPattern\<close> for it and a name; it then does so for every name.
\<close>

theorem C8_bad_pattern_matches_nothing:
  assumes "Match pattern name = Inl ErrBadPattern"
  shows "Present os pattern = False \<and> Connected os pattern = False
         \<and> Match pattern name' = Inl ErrBadPattern"
proof -
  have bad: "Match pattern n = Inl ErrBadPattern" for n
    using assms by (rule Match_error_any_name)
  have "\<not> Present os pattern" by (cases os) (simp_all add: bad)
  moreover have "\<not> Connected os pattern" by (cases os) (simp_all add: bad)
  ultimately show ?thesis using bad by simp
qed

theorem C8_bad_pattern_matches_nothing_witness:
  "Match ''HDMI['' ''HDMI1'' = Inl ErrBadPattern
   \<and> Present [\<lparr>Output_Name = ''HDMI1'', Output_Modes = [], Output_Connected = True\<rparr>] ''HDMI[''
       = False
   \<and> Connected [\<lparr>Output_Name = ''HDMI1'', Output_Modes = [], Output_Connected = True\<rparr>] ''HDMI[''
       = False
   \<and> Present [\<lparr>Output_Name = ''HDMI1'', Output_Modes = [], Output_Connected = True\<rparr>] ''HDMI?''
   \<and> Connected [\<lparr>Output_Name = ''HDMI1'', Output_Modes = [], Output_Connected = True\<rparr>] ''HDMI?''"
proof -
  have h: "Match ''HDMI['' ''HDMI1'' = Inl ErrBadPattern"
    by (simp add: match_eval)
  have ok: "Match ''HDMI?'' ''HDMI1'' = Inr True"
    by (simp add: match_eval)
  from C8_bad_pattern_matches_nothing [OF h,
      of "[\<lparr>Output_Name = ''HDMI1'', Output_Modes = [], Output_Connected = True\<rparr>]"]
  have "Present [\<lparr>Output_Name = ''HDMI1'', Output_Modes = [], Output_Connected = True\<rparr>] ''HDMI[''
       = False
   \<and> Connected [\<lparr>Output_Name = ''HDMI1'', Output_Modes = [], Output_Connected = True\<rparr>] ''HDMI[''
       = False"
    by simp
  with h ok show ?thesis by simp
qed

end
